theory Spec2Isabelle
  imports Main
begin

section \<open>Python values, exceptions and the logger\<close>

text \<open>
  The client of \<^verbatim>\<open>atkinson/dlrn/http_data.py\<close> handles dynamically typed data: what the YAML
  parser returns, the cells of a CSV row, the fields of the hash triple. They are modelled by
  one datatype of Python values. Strings are lists of characters read as code points below
  256; floats and timestamps are not modelled. A parsed value is a tree: two fields never
  share one list object.
\<close>

datatype pyval =
    PNone
  | PBool bool
  | PInt int
  | PStr string
  | PList "pyval list"
  | PDict "(pyval \<times> pyval) list"

text \<open>
  Every \<^verbatim>\<open>raise\<close> the code can reach. \<open>LibraryError\<close> stands for an exception of a
  library that the module does not catch (a YAML parse error, a request exception other than
  \<^verbatim>\<open>ConnectionError\<close>).
\<close>

datatype exn =
    TypeError
  | AttributeError
  | KeyError pyval
  | IndexError
  | CsvError
  | LibraryError string

text \<open>
  The logger is an external object; its state is the list of messages it has received.
  \<open>Warning (FailedRequest u)\<close> is \<^verbatim>\<open>logger.warning(error.request)\<close> for the request to
  \<open>u\<close>; \<open>Warning (StatusOfError pkg)\<close> is the warning whose text is
  \<^verbatim>\<open>'{0} has a status of error'.format(str(pkg))\<close>, with the record kept as a value instead
  of its rendering; \<open>Error s\<close> is \<^verbatim>\<open>logger.error(s)\<close>.
\<close>

datatype warning_msg = FailedRequest string | StatusOfError pyval

datatype log_entry = Warning warning_msg | Error string

type_synonym log = "log_entry list"

section \<open>The remote side\<close>

text \<open>
  \<^verbatim>\<open>requests.get(url)\<close> either returns a response (status code and text), raises
  \<^verbatim>\<open>ConnectionError\<close>, or raises something else. \<^verbatim>\<open>toolchest.yaml.parse\<close> is a library
  function outside the module: it is a parameter, a function from the text to a value or an
  exception.
\<close>

datatype response = Reply nat string | ConnectionError | Raises exn

record world =
  http :: "string \<Rightarrow> response"
  yaml_parse :: "string \<Rightarrow> exn + pyval"

definition raw_fetch :: "world \<Rightarrow> string \<Rightarrow> log \<Rightarrow> log \<times> (exn + string option)" where
  "raw_fetch w u lg =
     (case http w u of
        Reply code body \<Rightarrow> (lg, Inr (if code = 200 then Some body else None))
      | ConnectionError \<Rightarrow> (lg @ [Warning (FailedRequest u)], Inr None)
      | Raises e \<Rightarrow> (lg, Inl e))"

definition fetch_yaml :: "world \<Rightarrow> string \<Rightarrow> log \<Rightarrow> log \<times> (exn + pyval)" where
  "fetch_yaml w u lg =
     (case raw_fetch w u lg of
        (lg', Inl e) \<Rightarrow> (lg', Inl e)
      | (lg', Inr None) \<Rightarrow> (lg', Inr PNone)
      | (lg', Inr (Some raw_data)) \<Rightarrow> (lg', yaml_parse w raw_data))"

section \<open>Library operations on strings and values\<close>

text \<open>\<^verbatim>\<open>os.path.join\<close> of \<^verbatim>\<open>posixpath\<close>: a component that starts with the separator
  replaces what was joined so far.\<close>

definition join_step :: "string \<Rightarrow> string \<Rightarrow> string" where
  "join_step path b =
     (if b \<noteq> [] \<and> hd b = CHR ''/'' then b
      else if path = [] \<or> last path = CHR ''/'' then path @ b
      else path @ ''/'' @ b)"

definition path_join :: "string \<Rightarrow> string list \<Rightarrow> string" where
  "path_join a p = foldl join_step a p"

text \<open>\<^verbatim>\<open>os.fspath\<close> accepts a string only; \<^verbatim>\<open>os.path.join\<close> applies it to every argument.\<close>

fun fspath :: "pyval \<Rightarrow> string option" where
  "fspath (PStr s) = Some s"
| "fspath _ = None"

definition path_join_vals :: "string \<Rightarrow> pyval list \<Rightarrow> exn + string" where
  "path_join_vals a p =
     (if list_all (\<lambda>v. fspath v \<noteq> None) p then Inr (path_join a (map (\<lambda>v. the (fspath v)) p))
      else Inl TypeError)"

text \<open>The slice \<^verbatim>\<open>v[lo:hi]\<close> for constant bounds \<open>lo \<le> hi\<close>. Slicing a dict raises
  \<^verbatim>\<open>TypeError\<close> (unhashable slice), as every other value that is not a sequence does.\<close>

fun py_slice :: "pyval \<Rightarrow> nat \<Rightarrow> nat \<Rightarrow> exn + pyval" where
  "py_slice (PStr s) lo hi = Inr (PStr (take (hi - lo) (drop lo s)))"
| "py_slice (PList xs) lo hi = Inr (PList (take (hi - lo) (drop lo xs)))"
| "py_slice _ lo hi = Inl TypeError"

text \<open>\<^verbatim>\<open>s + v\<close> for a string \<open>s\<close>.\<close>

fun py_str_add :: "string \<Rightarrow> pyval \<Rightarrow> exn + string" where
  "py_str_add s (PStr t) = Inr (s @ t)"
| "py_str_add s _ = Inl TypeError"

text \<open>\<^verbatim>\<open>v += s\<close> for a string \<open>s\<close>: a new string when \<open>v\<close> is a string; when \<open>v\<close> is a
  list, the list object itself is extended by the characters of \<open>s\<close>.\<close>

fun py_iadd_str :: "pyval \<Rightarrow> string \<Rightarrow> exn + pyval" where
  "py_iadd_str (PStr a) s = Inr (PStr (a @ s))"
| "py_iadd_str (PList xs) s = Inr (PList (xs @ map (\<lambda>c. PStr [c]) s))"
| "py_iadd_str _ s = Inl TypeError"

text \<open>Sequencing of computations that may raise.\<close>

definition and_then :: "exn + 'a \<Rightarrow> ('a \<Rightarrow> exn + 'b) \<Rightarrow> exn + 'b" where
  "and_then x f = (case x of Inl e \<Rightarrow> Inl e | Inr v \<Rightarrow> f v)"

text \<open>\<^verbatim>\<open>k in v\<close> for a string \<open>k\<close>: a key of a dict, an element of a list, a substring of a
  string.\<close>

definition is_substring :: "string \<Rightarrow> string \<Rightarrow> bool" where
  "is_substring k s = list_ex (\<lambda>i. take (length k) (drop i s) = k) [0..<Suc (length s)]"

fun py_contains_str :: "pyval \<Rightarrow> string \<Rightarrow> exn + bool" where
  "py_contains_str (PDict kvs) k = Inr (PStr k \<in> set (map fst kvs))"
| "py_contains_str (PList xs) k = Inr (PStr k \<in> set xs)"
| "py_contains_str (PStr s) k = Inr (is_substring k s)"
| "py_contains_str _ k = Inl TypeError"

text \<open>\<^verbatim>\<open>v[k]\<close> for a string \<open>k\<close>: only a dict can be subscripted by a string.\<close>

fun py_getitem_str :: "pyval \<Rightarrow> string \<Rightarrow> exn + pyval" where
  "py_getitem_str (PDict kvs) k =
     (case map_of kvs (PStr k) of None \<Rightarrow> Inl (KeyError (PStr k)) | Some v \<Rightarrow> Inr v)"
| "py_getitem_str _ k = Inl TypeError"

text \<open>\<^verbatim>\<open>v[0]\<close>: the first element of a list, the first character of a string, the entry of a
  dict under a key equal to \<open>0\<close> (\<^verbatim>\<open>False == 0\<close> in Python).\<close>

fun py_getitem_0 :: "pyval \<Rightarrow> exn + pyval" where
  "py_getitem_0 (PList []) = Inl IndexError"
| "py_getitem_0 (PList (x # xs)) = Inr x"
| "py_getitem_0 (PStr []) = Inl IndexError"
| "py_getitem_0 (PStr (c # cs)) = Inr (PStr [c])"
| "py_getitem_0 (PDict kvs) =
     (case find (\<lambda>(k, v). k = PInt 0 \<or> k = PBool False) kvs of
        None \<Rightarrow> Inl (KeyError (PInt 0))
      | Some (k, v) \<Rightarrow> Inr v)"
| "py_getitem_0 _ = Inl TypeError"

text \<open>\<^verbatim>\<open>v.get(k)\<close>: only a dict has the method.\<close>

fun py_get :: "pyval \<Rightarrow> string \<Rightarrow> exn + pyval" where
  "py_get (PDict kvs) k = Inr (case map_of kvs (PStr k) of None \<Rightarrow> PNone | Some v \<Rightarrow> v)"
| "py_get _ k = Inl AttributeError"

text \<open>\<^verbatim>\<open>s.replace(' ', '_')\<close> and \<^verbatim>\<open>s.split()\<close>: the latter cuts at runs of whitespace
  and returns no empty string.\<close>

definition replace_space :: "string \<Rightarrow> string" where
  "replace_space s = map (\<lambda>c. if c = CHR '' '' then CHR ''_'' else c) s"

definition is_space :: "char \<Rightarrow> bool" where
  "is_space c =
     (let n = (of_char c :: nat)
      in (9 \<le> n \<and> n \<le> 13) \<or> (28 \<le> n \<and> n \<le> 32) \<or> n = 133 \<or> n = 160)"

fun split_ws :: "string \<Rightarrow> string \<Rightarrow> string list" where
  "split_ws cur [] = (if cur = [] then [] else [cur])"
| "split_ws cur (c # cs) =
     (if is_space c then (if cur = [] then split_ws [] cs else cur # split_ws [] cs)
      else split_ws (cur @ [c]) cs)"

definition py_split :: "string \<Rightarrow> string list" where
  "py_split s = split_ws [] s"

section \<open>The CSV reader of the standard library\<close>

text \<open>
  \<^verbatim>\<open>csv.reader\<close> with the dialect \<^verbatim>\<open>excel\<close>: delimiter \<open>,\<close>, quote character \<open>"\<close>,
  doubled quotes, no escape character, not strict. The states that only an escape character
  reaches are left out. The end of a line is the sentinel \<open>None\<close>; the reader refuses a
  line that contains the character 0, and a field longer than the field size limit.
\<close>

datatype parser_state =
  START_RECORD | START_FIELD | IN_FIELD | IN_QUOTED_FIELD | QUOTE_IN_QUOTED_FIELD | EAT_CRNL

record reader =
  state :: parser_state
  field :: string
  saved_fields :: "string list"

definition field_limit :: nat where
  "field_limit = 131072"

definition delimiter :: char where
  "delimiter = CHR '',''"

definition quotechar :: char where
  "quotechar = CHR 0x22"

definition is_newline :: "char option \<Rightarrow> bool" where
  "is_newline c = (c = Some (CHR 0x0A) \<or> c = Some (CHR 0x0D))"

definition parse_reset :: reader where
  "parse_reset = \<lparr>state = START_RECORD, field = [], saved_fields = []\<rparr>"

definition parse_add_char :: "reader \<Rightarrow> char \<Rightarrow> exn + reader" where
  "parse_add_char self c =
     (if field_limit \<le> length (field self) then Inl CsvError
      else Inr (self\<lparr>field := field self @ [c]\<rparr>))"

definition parse_save_field :: "reader \<Rightarrow> reader" where
  "parse_save_field self = self\<lparr>saved_fields := saved_fields self @ [field self], field := []\<rparr>"

definition end_of_line :: "reader \<Rightarrow> char option \<Rightarrow> reader" where
  "end_of_line self c =
     (parse_save_field self)\<lparr>state := (if c = None then START_RECORD else EAT_CRNL)\<rparr>"

definition start_field :: "reader \<Rightarrow> char option \<Rightarrow> exn + reader" where
  "start_field self c =
     (if is_newline c \<or> c = None then Inr (end_of_line self c)
      else if c = Some quotechar then Inr (self\<lparr>state := IN_QUOTED_FIELD\<rparr>)
      else if c = Some delimiter then Inr (parse_save_field self)
      else and_then (parse_add_char self (the c)) (\<lambda>r. Inr (r\<lparr>state := IN_FIELD\<rparr>)))"

definition parse_process_char :: "reader \<Rightarrow> char option \<Rightarrow> exn + reader" where
  "parse_process_char self c =
     (case state self of
        START_RECORD \<Rightarrow>
          (if c = None then Inr self
           else if is_newline c then Inr (self\<lparr>state := EAT_CRNL\<rparr>)
           else start_field (self\<lparr>state := START_FIELD\<rparr>) c)
      | START_FIELD \<Rightarrow> start_field self c
      | IN_FIELD \<Rightarrow>
          (if is_newline c \<or> c = None then Inr (end_of_line self c)
           else if c = Some delimiter then Inr ((parse_save_field self)\<lparr>state := START_FIELD\<rparr>)
           else parse_add_char self (the c))
      | IN_QUOTED_FIELD \<Rightarrow>
          (if c = None then Inr self
           else if c = Some quotechar then Inr (self\<lparr>state := QUOTE_IN_QUOTED_FIELD\<rparr>)
           else parse_add_char self (the c))
      | QUOTE_IN_QUOTED_FIELD \<Rightarrow>
          (if c = Some quotechar then
             and_then (parse_add_char self (the c)) (\<lambda>r. Inr (r\<lparr>state := IN_QUOTED_FIELD\<rparr>))
           else if c = Some delimiter then Inr ((parse_save_field self)\<lparr>state := START_FIELD\<rparr>)
           else if is_newline c \<or> c = None then Inr (end_of_line self c)
           else and_then (parse_add_char self (the c)) (\<lambda>r. Inr (r\<lparr>state := IN_FIELD\<rparr>)))
      | EAT_CRNL \<Rightarrow>
          (if is_newline c then Inr self
           else if c = None then Inr (self\<lparr>state := START_RECORD\<rparr>)
           else Inl CsvError))"

text \<open>One line of the input: its characters, then the end-of-line sentinel.\<close>

fun process_chars :: "reader \<Rightarrow> string \<Rightarrow> exn + reader" where
  "process_chars self [] = Inr self"
| "process_chars self (c # cs) =
     (if c = CHR 0x00 then Inl CsvError
      else and_then (parse_process_char self (Some c)) (\<lambda>r. process_chars r cs))"

definition process_line :: "reader \<Rightarrow> string \<Rightarrow> exn + reader" where
  "process_line self l = and_then (process_chars self l) (\<lambda>r. parse_process_char r None)"

text \<open>
  The records the reader yields on a list of lines, and the exception that ends the iteration,
  if any. A record is complete when a line leaves the reader in \<open>START_RECORD\<close>; the next
  record starts from \<open>parse_reset\<close>. At the end of the input, a pending field or an open
  quoted field is saved as a last record.
\<close>

fun reader_records :: "reader \<Rightarrow> string list \<Rightarrow> string list list \<times> exn option" where
  "reader_records self [] =
     (if field self \<noteq> [] \<or> state self = IN_QUOTED_FIELD
      then ([saved_fields (parse_save_field self)], None) else ([], None))"
| "reader_records self (l # ls) =
     (case process_line self l of
        Inl e \<Rightarrow> ([], Some e)
      | Inr r \<Rightarrow>
          if state r = START_RECORD
          then (case reader_records parse_reset ls of (rs, e) \<Rightarrow> (saved_fields r # rs, e))
          else reader_records r ls)"

text \<open>
  \<^verbatim>\<open>csv.DictReader\<close>: the first record gives the field names; an empty record is skipped; a
  row longer than the field names puts the rest under the key \<open>None\<close>, a shorter one binds
  the missing names to \<open>None\<close>. In \<^verbatim>\<open>dict(zip(...))\<close> a later binding of a name replaces an
  earlier one.
\<close>

type_synonym row = "pyval \<rightharpoonup> pyval"

definition make_row :: "string list \<Rightarrow> string list \<Rightarrow> row" where
  "make_row fieldnames r =
     (let d = foldl (\<lambda>m (k, v). m(PStr k \<mapsto> PStr v)) Map.empty (zip fieldnames r);
          lf = length fieldnames;
          lr = length r
      in if lf < lr then d(PNone \<mapsto> PList (map PStr (drop lf r)))
         else if lr < lf then foldl (\<lambda>m k. m(PStr k \<mapsto> PNone)) d (drop lr fieldnames)
         else d)"

definition dict_reader :: "string list \<Rightarrow> row list \<times> exn option" where
  "dict_reader f =
     (case reader_records parse_reset f of
        ([], e) \<Rightarrow> ([], e)
      | (fieldnames # rs, e) \<Rightarrow> (map (make_row fieldnames) (filter (\<lambda>r. r \<noteq> []) rs), e))"

section \<open>The client\<close>

text \<open>The named tuple \<^verbatim>\<open>DlrnHashes\<close> and the instance of \<^verbatim>\<open>DlrnHttpData\<close>. The
  dictionary \<^verbatim>\<open>_commit_data\<close> has string keys.\<close>

record hashes =
  commit :: pyval
  dist :: pyval
  extended :: pyval

record dlrn_http_data =
  url :: string
  release :: string
  link_name :: string
  commit_data :: "string \<rightharpoonup> pyval"

subsection \<open>\<^verbatim>\<open>_build_url\<close>\<close>

text \<open>
  The loop over \<^verbatim>\<open>['dist', 'extended']\<close>. A named tuple always has both attributes, so the
  default of \<^verbatim>\<open>getattr\<close> is never taken and \<open>data\<close> is the field's value. The loop
  returns the value of \<open>third\<close> it reached and the exception that stopped it, if any.
\<close>

fun suffix_loop :: "pyval \<Rightarrow> pyval list \<Rightarrow> pyval \<times> exn option" where
  "suffix_loop third [] = (third, None)"
| "suffix_loop third (data # rest) =
     (if data \<noteq> PStr ''None'' then
        (case py_slice data 0 8 of
           Inl e \<Rightarrow> (third, Some e)
         | Inr d \<Rightarrow>
             (case py_str_add ''_'' d of
                Inl e \<Rightarrow> (third, Some e)
              | Inr s \<Rightarrow>
                  (case py_iadd_str third s of
                     Inl e \<Rightarrow> (third, Some e)
                   | Inr third' \<Rightarrow> suffix_loop third' rest)))
      else suffix_loop third rest)"

text \<open>
  \<open>build_url\<close> returns the result (the URL or the exception) and, first, the value the
  object \<^verbatim>\<open>hash_data.commit\<close> holds afterwards: \<open>third\<close> is bound to that object, and
  \<^verbatim>\<open>+=\<close> changes it in place when it is a list.
\<close>

definition build_url :: "dlrn_http_data \<Rightarrow> hashes \<Rightarrow> pyval \<times> (exn + string)" where
  "build_url self hash_data =
     (case py_slice (commit hash_data) 0 2 of
        Inl e \<Rightarrow> (commit hash_data, Inl e)
      | Inr first \<Rightarrow>
          (case py_slice (commit hash_data) 2 4 of
             Inl e \<Rightarrow> (commit hash_data, Inl e)
           | Inr second \<Rightarrow>
               (case suffix_loop (commit hash_data) [dist hash_data, extended hash_data] of
                  (third, err) \<Rightarrow>
                    (case commit hash_data of PList xs \<Rightarrow> third | _ \<Rightarrow> commit hash_data,
                     case err of
                       Some e \<Rightarrow> Inl e
                     | None \<Rightarrow> path_join_vals (url self) [first, second, third]))))"

subsection \<open>Construction\<close>

text \<open>\<^verbatim>\<open>_fetch_commit\<close>, and \<^verbatim>\<open>__init__\<close>, which calls it on the fresh instance.\<close>

definition fetch_commit :: "world \<Rightarrow> dlrn_http_data \<Rightarrow> log \<Rightarrow> log \<times> (exn + dlrn_http_data)" where
  "fetch_commit w self lg =
     (let full_url = path_join (url self) [link_name self, ''commit.yaml'']
      in case fetch_yaml w full_url lg of
           (lg', Inl e) \<Rightarrow> (lg', Inl e)
         | (lg', Inr data) \<Rightarrow>
             (case (if data \<noteq> PNone then py_contains_str data ''commits'' else Inr False) of
                Inl e \<Rightarrow> (lg', Inl e)
              | Inr False \<Rightarrow> (lg', Inr self)
              | Inr True \<Rightarrow>
                  (case and_then (py_getitem_str data ''commits'') py_getitem_0 of
                     Inl e \<Rightarrow> (lg', Inl e)
                   | Inr pkg \<Rightarrow>
                       (case py_getitem_str pkg ''status'' of
                          Inl e \<Rightarrow> (lg', Inl e)
                        | Inr st \<Rightarrow>
                            if st = PStr ''SUCCESS'' then
                              (lg',
                               and_then (py_getitem_str pkg ''project_name'') (\<lambda>nm.
                               and_then (py_getitem_str pkg ''distro_hash'') (\<lambda>dh.
                               and_then (py_getitem_str pkg ''commit_hash'') (\<lambda>ch.
                               and_then (py_get pkg ''extended_hash'') (\<lambda>eh.
                                 Inr (self\<lparr>commit_data :=
                                        [''name'' \<mapsto> nm, ''dist_hash'' \<mapsto> dh,
                                         ''commit_hash'' \<mapsto> ch, ''extended_hash'' \<mapsto> eh]\<rparr>))))))
                            else (lg' @ [Warning (StatusOfError pkg)], Inr self)))))"

definition init :: "world \<Rightarrow> string \<Rightarrow> string \<Rightarrow> string \<Rightarrow> log \<Rightarrow> log \<times> (exn + dlrn_http_data)" where
  "init w u rel link lg =
     fetch_commit w
       \<lparr>url = path_join u [rel], release = rel, link_name = link, commit_data = Map.empty\<rparr> lg"

subsection \<open>\<^verbatim>\<open>_parse_csv\<close>\<close>

text \<open>
  The generator yields the rows of the \<^verbatim>\<open>DictReader\<close> one by one; the model returns them
  with the exception that ends the iteration, if any, so that a loop over the rows meets an
  exception of its own body first.
\<close>

definition parse_csv :: "world \<Rightarrow> string \<Rightarrow> log \<Rightarrow> log \<times> row list \<times> exn option" where
  "parse_csv w u lg =
     (case raw_fetch w u lg of
        (lg', Inl e) \<Rightarrow> (lg', [], Some e)
      | (lg', Inr None) \<Rightarrow> (lg' @ [Error (''Could not fetch '' @ u @ ''!'')], [], None)
      | (lg', Inr (Some data)) \<Rightarrow> (lg', dict_reader (py_split (replace_space data))))"

text \<open>\<^verbatim>\<open>row[k]\<close>, \<^verbatim>\<open>d.get(k)\<close> and \<^verbatim>\<open>d[k] = v\<close>; a list or a dict is not hashable.\<close>

definition row_get :: "row \<Rightarrow> string \<Rightarrow> exn + pyval" where
  "row_get r k = (case r (PStr k) of None \<Rightarrow> Inl (KeyError (PStr k)) | Some v \<Rightarrow> Inr v)"

definition dict_get :: "(string \<rightharpoonup> pyval) \<Rightarrow> string \<Rightarrow> pyval" where
  "dict_get d k = (case d k of None \<Rightarrow> PNone | Some v \<Rightarrow> v)"

fun hashable :: "pyval \<Rightarrow> bool" where
  "hashable (PList xs) = False"
| "hashable (PDict kvs) = False"
| "hashable _ = True"

definition dict_set :: "(pyval \<rightharpoonup> 'v) \<Rightarrow> pyval \<Rightarrow> 'v \<Rightarrow> exn + (pyval \<rightharpoonup> 'v)" where
  "dict_set d k v = (if hashable k then Inr (d(k \<mapsto> v)) else Inl TypeError)"

text \<open>A \<^verbatim>\<open>for\<close> loop over the rows whose body updates a dictionary or raises; the exception
  that ended the generator is raised after the last row.\<close>

fun for_rows :: "('d \<Rightarrow> row \<Rightarrow> exn + 'd) \<Rightarrow> 'd \<Rightarrow> row list \<Rightarrow> exn + 'd" where
  "for_rows body d [] = Inr d"
| "for_rows body d (r # rs) = and_then (body d r) (\<lambda>d'. for_rows body d' rs)"

definition for_generator ::
  "('d \<Rightarrow> row \<Rightarrow> exn + 'd) \<Rightarrow> 'd \<Rightarrow> row list \<times> exn option \<Rightarrow> exn + 'd" where
  "for_generator body d gen =
     and_then (for_rows body d (fst gen))
       (\<lambda>d'. case snd gen of Some e \<Rightarrow> Inl e | None \<Rightarrow> Inr d')"

subsection \<open>\<^verbatim>\<open>versions\<close>\<close>

type_synonym versions_dict = "pyval \<rightharpoonup> (string \<rightharpoonup> pyval)"

text \<open>The body of the loop: the dict display is evaluated first, then the key.\<close>

definition versions_row :: "versions_dict \<Rightarrow> row \<Rightarrow> exn + versions_dict" where
  "versions_row ret_dict r =
     and_then (row_get r ''Source_Sha'') (\<lambda>src.
     and_then (row_get r ''Status'') (\<lambda>st.
     and_then (row_get r ''Dist_Sha'') (\<lambda>dg.
     and_then (row_get r ''Pkg_NVR'') (\<lambda>nvr.
     and_then (row_get r ''Project'') (\<lambda>p.
       dict_set ret_dict p
         [''source'' \<mapsto> src, ''state'' \<mapsto> st, ''distgit'' \<mapsto> dg, ''nvr'' \<mapsto> nvr])))))"

text \<open>
  The accessor returns the instance too: the hash triple holds the very object stored under
  \<^verbatim>\<open>commit_hash\<close>, so what \<open>build_url\<close> did to that object is written back.
\<close>

definition versions ::
  "world \<Rightarrow> dlrn_http_data \<Rightarrow> log \<Rightarrow> (dlrn_http_data \<times> log) \<times> (exn + versions_dict)" where
  "versions w self lg =
     (let version_hash = \<lparr>commit = dict_get (commit_data self) ''commit_hash'',
                          dist = dict_get (commit_data self) ''dist_hash'',
                          extended = dict_get (commit_data self) ''extended_hash''\<rparr>
      in case build_url self version_hash of
           (obj, res) \<Rightarrow>
             (let self' = (case commit_data self ''commit_hash'' of
                             Some (PList xs) \<Rightarrow>
                               self\<lparr>commit_data := (commit_data self)(''commit_hash'' \<mapsto> obj)\<rparr>
                           | _ \<Rightarrow> self)
              in case res of
                   Inl e \<Rightarrow> ((self', lg), Inl e)
                 | Inr u \<Rightarrow>
                     (case parse_csv w (path_join u [''versions.csv'']) lg of
                        (lg', gen) \<Rightarrow>
                          ((self', lg'), for_generator versions_row Map.empty gen))))"

subsection \<open>\<^verbatim>\<open>get_failures\<close>\<close>

type_synonym failures_dict = "pyval \<rightharpoonup> string"

definition failures_row :: "dlrn_http_data \<Rightarrow> failures_dict \<Rightarrow> row \<Rightarrow> exn + failures_dict" where
  "failures_row self failed r =
     and_then (row_get r ''Status'') (\<lambda>st.
       if st = PStr ''FAILED'' then
         and_then (row_get r ''Source_Sha'') (\<lambda>s.
         and_then (row_get r ''Dist_Sha'') (\<lambda>d.
         and_then (row_get r ''Extended_Sha'') (\<lambda>e.
         and_then (snd (build_url self \<lparr>commit = s, dist = d, extended = e\<rparr>)) (\<lambda>u.
         and_then (row_get r ''Project'') (\<lambda>p.
           dict_set failed p u)))))
       else Inr failed)"

definition get_failures :: "world \<Rightarrow> dlrn_http_data \<Rightarrow> log \<Rightarrow> log \<times> (exn + failures_dict)" where
  "get_failures w self lg =
     (case parse_csv w (path_join (url self) [''status_report.csv'']) lg of
        (lg', gen) \<Rightarrow> (lg', for_generator (failures_row self) Map.empty gen))"

subsection \<open>Sequences of calls\<close>

text \<open>A caller may call the two accessors in any order, each time against whatever the remote
  side then serves, and go on after an exception.\<close>

datatype call = Versions | GetFailures

fun step :: "dlrn_http_data \<times> log \<Rightarrow> world \<times> call \<Rightarrow> dlrn_http_data \<times> log" where
  "step (self, lg) (w, Versions) = fst (versions w self lg)"
| "step (self, lg) (w, GetFailures) = (self, fst (get_failures w self lg))"

definition run :: "dlrn_http_data \<times> log \<Rightarrow> (world \<times> call) list \<Rightarrow> dlrn_http_data \<times> log" where
  "run s calls = foldl step s calls"

section \<open>The CSV format as the specification reads it\<close>

text \<open>
  A CSV text is the writing of a table, a list of rows of cells, the first row being the
  header. A cell is written as it is, or between quote characters with every quote
  character inside doubled; the cells of a row are joined by commas into a line; the lines are
  joined by the line break, which may also follow the last line. The flag of a cell says
  whether it is written between quotes. None of this refers to the reader above.
\<close>

type_synonym cell = "bool \<times> string"

definition quote_cell :: "string \<Rightarrow> string" where
  "quote_cell c =
     CHR 0x22 # concat (map (\<lambda>x. if x = CHR 0x22 then [CHR 0x22, CHR 0x22] else [x]) c)
       @ [CHR 0x22]"

definition render_cell :: "cell \<Rightarrow> string" where
  "render_cell c = (if fst c then quote_cell (snd c) else snd c)"

fun join_with :: "string \<Rightarrow> string list \<Rightarrow> string" where
  "join_with sep [] = []"
| "join_with sep [x] = x"
| "join_with sep (x # y # ys) = x @ sep @ join_with sep (y # ys)"

definition render_line :: "cell list \<Rightarrow> string" where
  "render_line r = join_with '','' (map render_cell r)"

definition csv_text :: "string \<Rightarrow> bool \<Rightarrow> cell list list \<Rightarrow> string" where
  "csv_text eol final t = join_with eol (map render_line t) @ (if final then eol else [])"

text \<open>
  A cell may stand without quotes when it has no comma, no quote character and no line break.
  A table is well formed when it has a header, the names in the header are distinct, every
  row has as many cells as the header, every cell that needs quotes has them, and no line
  is empty (a row that is one empty cell is written with quotes).
\<close>

definition plain_cell :: "string \<Rightarrow> bool" where
  "plain_cell c =
     (\<forall>x \<in> set c. x \<noteq> CHR '','' \<and> x \<noteq> CHR 0x22 \<and> x \<noteq> CHR 0x0A \<and> x \<noteq> CHR 0x0D)"

definition well_formed_table :: "cell list list \<Rightarrow> bool" where
  "well_formed_table t =
     (t \<noteq> [] \<and> distinct (map snd (hd t)) \<and>
      (\<forall>r \<in> set t. length r = length (hd t) \<and> render_line r \<noteq> [] \<and>
                      (\<forall>c \<in> set r. fst c \<or> plain_cell (snd c))))"

text \<open>
  What \<^verbatim>\<open>_parse_csv\<close> asks of a cell beyond that: \<^verbatim>\<open>str.split\<close> cuts at every
  whitespace character, of which only the space has been replaced, and the reader refuses
  the character 0 and a field above its size limit. The tokens of a row are its cells with
  every space replaced by an underscore.
\<close>

definition other_whitespace :: "char \<Rightarrow> bool" where
  "other_whitespace c =
     (c \<in> set [CHR 0x09, CHR 0x0A, CHR 0x0B, CHR 0x0C, CHR 0x0D,
                CHR 0x1C, CHR 0x1D, CHR 0x1E, CHR 0x1F, CHR 0x85, CHR 0xA0])"

definition readable_cell :: "string \<Rightarrow> bool" where
  "readable_cell c =
     (length c \<le> field_limit \<and> (\<forall>x \<in> set c. x \<noteq> CHR 0x00 \<and> \<not> other_whitespace x))"

definition underscored :: "cell list \<Rightarrow> string list" where
  "underscored r = map (\<lambda>c. replace_space (snd c)) r"

text \<open>
  The results of the two accessors as the specification describes them. For \<^verbatim>\<open>versions\<close>:
  the entry of a project is built from the last row that names it. For \<^verbatim>\<open>get_failures\<close>:
  the entry of a project is the URL built from the hashes of the last row with the status
  \<open>FAILED\<close> that names it.
\<close>

definition version_entry :: "row \<Rightarrow> (string \<rightharpoonup> pyval)" where
  "version_entry r =
     [''source'' \<mapsto> the (r (PStr ''Source_Sha'')), ''state'' \<mapsto> the (r (PStr ''Status'')),
      ''distgit'' \<mapsto> the (r (PStr ''Dist_Sha'')), ''nvr'' \<mapsto> the (r (PStr ''Pkg_NVR''))]"

definition last_row_for :: "row list \<Rightarrow> pyval \<Rightarrow> row option" where
  "last_row_for rows p = find (\<lambda>r. r (PStr ''Project'') = Some p) (rev rows)"

definition failure_url :: "dlrn_http_data \<Rightarrow> row \<Rightarrow> string" where
  "failure_url self r =
     (case snd (build_url self \<lparr>commit = the (r (PStr ''Source_Sha'')),
                                dist = the (r (PStr ''Dist_Sha'')),
                                extended = the (r (PStr ''Extended_Sha''))\<rparr>) of
        Inr u \<Rightarrow> u | Inl e \<Rightarrow> [])"

definition last_failed_for :: "row list \<Rightarrow> pyval \<Rightarrow> row option" where
  "last_failed_for rows p =
     find (\<lambda>r. r (PStr ''Status'') = Some (PStr ''FAILED'') \<and> r (PStr ''Project'') = Some p)
       (rev rows)"

section \<open>Example remote sides and instances\<close>

text \<open>
  The scenario of the specification: the host \<open>base\<close>, the release \<open>release\<close>, the link
  \<open>current\<close>, and a \<^verbatim>\<open>commit.yaml\<close> with one commit of the project \<open>foo\<close>. \<open>serving\<close> is a
  remote side that answers 200 for the listed files and 404 otherwise, and whose YAML parser
  returns \<open>y\<close>; \<open>unreachable\<close> refuses every connection.
\<close>

definition commit_yaml :: "string \<Rightarrow> pyval \<Rightarrow> pyval" where
  "commit_yaml status commit_hash =
     PDict [(PStr ''commits'',
             PList [PDict [(PStr ''status'', PStr status),
                           (PStr ''project_name'', PStr ''foo''),
                           (PStr ''distro_hash'', PStr ''abcd1234''),
                           (PStr ''commit_hash'', commit_hash),
                           (PStr ''extended_hash'', PStr ''None'')]])]"

definition serving :: "(string \<times> string) list \<Rightarrow> pyval \<Rightarrow> world" where
  "serving files y =
     \<lparr>http = (\<lambda>u. case map_of files u of Some body \<Rightarrow> Reply 200 body | None \<Rightarrow> Reply 404 []),
      yaml_parse = (\<lambda>t. Inr y)\<rparr>"

definition unreachable :: world where
  "unreachable =
     \<lparr>http = (\<lambda>u. ConnectionError), yaml_parse = (\<lambda>t. Inl (LibraryError ''yaml''))\<rparr>"

definition example_instance :: "pyval \<Rightarrow> dlrn_http_data" where
  "example_instance commit_hash =
     \<lparr>url = ''base/release'', release = ''release'', link_name = ''current'',
      commit_data = [''name'' \<mapsto> PStr ''foo'', ''dist_hash'' \<mapsto> PStr ''abcd1234'',
                     ''commit_hash'' \<mapsto> commit_hash, ''extended_hash'' \<mapsto> PStr ''None'']\<rparr>"

definition empty_instance :: dlrn_http_data where
  "empty_instance =
     \<lparr>url = ''base/release'', release = ''release'', link_name = ''current'',
      commit_data = Map.empty\<rparr>"

text \<open>Two CSV files as the remote side publishes them, with spaces in the header names.\<close>

definition status_report_csv :: string where
  "status_report_csv =
     ''Project,Status,Source Sha,Dist Sha,Extended Sha\<newline>bar,FAILED,aa11bb22,cc33dd44,None\<newline>baz,SUCCESS,0123456789,fedcba98,None\<newline>''"

definition versions_csv :: string where
  "versions_csv =
     ''Project,Source Sha,Dist Sha,Status,Pkg NVR\<newline>foo,1111,2222,SUCCESS,foo-1.0-1\<newline>bar,3333,4444,FAILED,bar-2.0-1\<newline>foo,5555,6666,SUCCESS,foo-1.1-1\<newline>''"

text \<open>
  The same two files as tables, a report whose failed row lacks its last cell, a table
  with quoted cells (a space in a name, a comma and quote characters inside a cell, an empty
  cell), and a table with a tab inside a cell.
\<close>

definition status_report_table :: "cell list list" where
  "status_report_table =
     [[(False, ''Project''), (False, ''Status''), (False, ''Source Sha''), (False, ''Dist Sha''),
       (False, ''Extended Sha'')],
      [(False, ''bar''), (False, ''FAILED''), (False, ''aa11bb22''), (False, ''cc33dd44''),
       (False, ''None'')],
      [(False, ''baz''), (False, ''SUCCESS''), (False, ''0123456789''), (False, ''fedcba98''),
       (False, ''None'')]]"

definition versions_table :: "cell list list" where
  "versions_table =
     [[(False, ''Project''), (False, ''Source Sha''), (False, ''Dist Sha''), (False, ''Status''),
       (False, ''Pkg NVR'')],
      [(False, ''foo''), (False, ''1111''), (False, ''2222''), (False, ''SUCCESS''),
       (False, ''foo-1.0-1'')],
      [(False, ''bar''), (False, ''3333''), (False, ''4444''), (False, ''FAILED''),
       (False, ''bar-2.0-1'')],
      [(False, ''foo''), (False, ''5555''), (False, ''6666''), (False, ''SUCCESS''),
       (False, ''foo-1.1-1'')]]"

definition short_row_csv :: string where
  "short_row_csv =
     ''Project,Status,Source Sha,Dist Sha,Extended Sha\<newline>bar,FAILED,aa11bb22,cc33dd44\<newline>''"

definition short_row_table :: "cell list list" where
  "short_row_table =
     [[(False, ''Project''), (False, ''Status''), (False, ''Source Sha''), (False, ''Dist Sha''),
       (False, ''Extended Sha'')],
      [(False, ''bar''), (False, ''FAILED''), (False, ''aa11bb22''), (False, ''cc33dd44'')]]"

definition quoted_table :: "cell list list" where
  "quoted_table =
     [[(False, ''Project''), (True, ''Pkg NVR''), (False, ''Note'')],
      [(False, ''foo''), (False, ''foo-1.0-1''), (True, ''built, signed'')],
      [(True, ''bar''), (False, ''''), (True, ''say '' @ [CHR 0x22] @ ''hi'' @ [CHR 0x22])]]"

definition tabbed_table :: "cell list list" where
  "tabbed_table =
     [[(False, ''Project''), (False, ''Status'')],
      [(False, ''foo'' @ [CHR 0x09] @ ''bar''), (False, ''FAILED'')]]"

section \<open>Construction\<close>

lemma init_url:
  "init w u rel link lg = (lg', Inr s) \<Longrightarrow>
     url s = path_join u [rel] \<and> release s = rel \<and> link_name s = link"
  by (auto simp: init_def fetch_commit_def Let_def and_then_def
           split: prod.splits sum.splits bool.splits if_splits)

lemma key_of_binding: "map_of kvs k = Some v \<Longrightarrow> k \<in> fst ` set kvs"
  by (metis domI dom_map_of_conv_image_fst)

lemma init_success:
  assumes "http w (path_join (path_join u [rel]) [link, ''commit.yaml'']) = Reply 200 body"
    and "yaml_parse w body = Inr (PDict kvs)"
    and "map_of kvs (PStr ''commits'') = Some (PList (PDict pkg # rest))"
    and "map_of pkg (PStr ''status'') = Some (PStr ''SUCCESS'')"
    and "map_of pkg (PStr ''project_name'') = Some pname"
    and "map_of pkg (PStr ''distro_hash'') = Some dhash"
    and "map_of pkg (PStr ''commit_hash'') = Some chash"
  shows "init w u rel link lg =
          (lg, Inr \<lparr>url = path_join u [rel], release = rel, link_name = link,
                    commit_data =
                      [''name'' \<mapsto> pname, ''dist_hash'' \<mapsto> dhash, ''commit_hash'' \<mapsto> chash,
                       ''extended_hash'' \<mapsto>
                          (case map_of pkg (PStr ''extended_hash'') of
                             None \<Rightarrow> PNone | Some eh \<Rightarrow> eh)]\<rparr>)"
  using assms key_of_binding [OF assms(3)]
  by (simp add: init_def fetch_commit_def fetch_yaml_def raw_fetch_def and_then_def)

lemma init_rejected:
  assumes "http w (path_join (path_join u [rel]) [link, ''commit.yaml'']) = Reply 200 body"
    and "yaml_parse w body = Inr (PDict kvs)"
    and "map_of kvs (PStr ''commits'') = Some (PList (PDict pkg # rest))"
    and "map_of pkg (PStr ''status'') = Some st"
    and "st \<noteq> PStr ''SUCCESS''"
  shows "init w u rel link lg =
          (lg @ [Warning (StatusOfError (PDict pkg))],
           Inr \<lparr>url = path_join u [rel], release = rel, link_name = link,
                commit_data = Map.empty\<rparr>)"
  using assms key_of_binding [OF assms(3)]
  by (simp add: init_def fetch_commit_def fetch_yaml_def raw_fetch_def and_then_def)

lemma init_absent:
  assumes "http w (path_join (path_join u [rel]) [link, ''commit.yaml'']) = ConnectionError \<or>
     (http w (path_join (path_join u [rel]) [link, ''commit.yaml'']) = Reply code body \<and>
      code \<noteq> 200)"
  shows "snd (init w u rel link lg) =
           Inr \<lparr>url = path_join u [rel], release = rel, link_name = link,
                commit_data = Map.empty\<rparr>"
  using assms by (auto simp: init_def fetch_commit_def fetch_yaml_def raw_fetch_def)

text \<open>
  C2: On construction the client fetches the \<^verbatim>\<open>commit.yaml\<close> of the link under the joined
  base URL and release. If the parsed YAML has a \<open>commits\<close> list whose first element has the
  status \<open>SUCCESS\<close> (and the three hash and name fields), the commit record is exactly that
  element's \<open>project_name\<close>, \<open>distro_hash\<close>, \<open>commit_hash\<close> and \<open>extended_hash\<close>, the last
  one \<open>None\<close> when absent. If the first element has another status, a warning with that
  record is logged and the commit record stays empty. If the fetch returns nothing
  (connection failure or a status other than 200), the commit record stays empty and the
  constructor returns normally.
\<close>

theorem fetch_commit_outcomes:
  "(http w (path_join (path_join u [rel]) [link, ''commit.yaml'']) = Reply 200 body \<and>
    yaml_parse w body = Inr (PDict kvs) \<and>
    map_of kvs (PStr ''commits'') = Some (PList (PDict pkg # rest)) \<and>
    map_of pkg (PStr ''status'') = Some (PStr ''SUCCESS'') \<and>
    map_of pkg (PStr ''project_name'') = Some pname \<and>
    map_of pkg (PStr ''distro_hash'') = Some dhash \<and>
    map_of pkg (PStr ''commit_hash'') = Some chash
    \<longrightarrow> init w u rel link lg =
          (lg, Inr \<lparr>url = path_join u [rel], release = rel, link_name = link,
                    commit_data =
                      [''name'' \<mapsto> pname, ''dist_hash'' \<mapsto> dhash, ''commit_hash'' \<mapsto> chash,
                       ''extended_hash'' \<mapsto>
                          (case map_of pkg (PStr ''extended_hash'') of
                             None \<Rightarrow> PNone | Some eh \<Rightarrow> eh)]\<rparr>))
   \<and>
   (http w (path_join (path_join u [rel]) [link, ''commit.yaml'']) = Reply 200 body \<and>
    yaml_parse w body = Inr (PDict kvs) \<and>
    map_of kvs (PStr ''commits'') = Some (PList (PDict pkg # rest)) \<and>
    map_of pkg (PStr ''status'') = Some st \<and> st \<noteq> PStr ''SUCCESS''
    \<longrightarrow> init w u rel link lg =
          (lg @ [Warning (StatusOfError (PDict pkg))],
           Inr \<lparr>url = path_join u [rel], release = rel, link_name = link,
                commit_data = Map.empty\<rparr>))
   \<and>
   (http w (path_join (path_join u [rel]) [link, ''commit.yaml'']) = ConnectionError \<or>
    (http w (path_join (path_join u [rel]) [link, ''commit.yaml'']) = Reply code body \<and>
     code \<noteq> 200)
    \<longrightarrow> snd (init w u rel link lg) =
           Inr \<lparr>url = path_join u [rel], release = rel, link_name = link,
                commit_data = Map.empty\<rparr>)"
  using init_success [of w u rel link body kvs pkg rest pname dhash chash lg]
    init_rejected [of w u rel link body kvs pkg rest st lg]
    init_absent [of w u rel link code body lg]
  by blast

theorem fetch_commit_outcomes_witness:
  "init (serving [(''base/release/current/commit.yaml'', ''commits'')]
           (commit_yaml ''SUCCESS'' (PStr ''1234567890abcdef'')))
        ''base'' ''release'' ''current'' []
     = ([], Inr (example_instance (PStr ''1234567890abcdef'')))
   \<and>
   init (serving [(''base/release/current/commit.yaml'', ''commits'')]
           (commit_yaml ''ERROR'' (PStr ''1234567890abcdef'')))
        ''base'' ''release'' ''current'' []
     = ([Warning (StatusOfError
                   (PDict [(PStr ''status'', PStr ''ERROR''),
                           (PStr ''project_name'', PStr ''foo''),
                           (PStr ''distro_hash'', PStr ''abcd1234''),
                           (PStr ''commit_hash'', PStr ''1234567890abcdef''),
                           (PStr ''extended_hash'', PStr ''None'')]))],
        Inr empty_instance)
   \<and>
   snd (init unreachable ''base'' ''release'' ''current'' []) = Inr empty_instance"
proof (intro conjI)
  let ?ok = "serving [(''base/release/current/commit.yaml'', ''commits'')]
               (commit_yaml ''SUCCESS'' (PStr ''1234567890abcdef''))"
  let ?err = "serving [(''base/release/current/commit.yaml'', ''commits'')]
               (commit_yaml ''ERROR'' (PStr ''1234567890abcdef''))"
  let ?pkg = "\<lambda>status.
     [(PStr ''status'', PStr status), (PStr ''project_name'', PStr ''foo''),
      (PStr ''distro_hash'', PStr ''abcd1234''),
      (PStr ''commit_hash'', PStr ''1234567890abcdef''),
      (PStr ''extended_hash'', PStr ''None'')]"
  show "init ?ok ''base'' ''release'' ''current'' []
          = ([], Inr (example_instance (PStr ''1234567890abcdef'')))"
    using fetch_commit_outcomes [where w = "?ok" and u = "''base''" and rel = "''release''"
        and link = "''current''" and body = "''commits''"
        and kvs = "[(PStr ''commits'', PList [PDict (?pkg ''SUCCESS'')])]"
        and pkg = "?pkg ''SUCCESS''" and rest = "[]" and pname = "PStr ''foo''"
        and dhash = "PStr ''abcd1234''" and chash = "PStr ''1234567890abcdef''" and lg = "[]"]
    by (simp add: serving_def commit_yaml_def example_instance_def path_join_def join_step_def)
  show "init ?err ''base'' ''release'' ''current'' []
          = ([Warning (StatusOfError (PDict (?pkg ''ERROR'')))], Inr empty_instance)"
    using fetch_commit_outcomes [where w = "?err" and u = "''base''" and rel = "''release''"
        and link = "''current''" and body = "''commits''"
        and kvs = "[(PStr ''commits'', PList [PDict (?pkg ''ERROR'')])]"
        and pkg = "?pkg ''ERROR''" and rest = "[]" and st = "PStr ''ERROR''" and lg = "[]"]
    by (simp add: serving_def commit_yaml_def empty_instance_def path_join_def join_step_def)
  show "snd (init unreachable ''base'' ''release'' ''current'' []) = Inr empty_instance"
    using fetch_commit_outcomes [where w = unreachable and u = "''base''"
        and rel = "''release''" and link = "''current''" and lg = "[]"]
    by (simp add: unreachable_def empty_instance_def path_join_def join_step_def)
qed

text \<open>
  C9: If the fetched \<^verbatim>\<open>commit.yaml\<close> parses to a mapping whose key \<open>commits\<close> is bound to
  the empty list, taking the first element raises \<^verbatim>\<open>IndexError\<close>, and the exception leaves
  the constructor.
\<close>

theorem init_empty_commits_raises:
  assumes "http w (path_join (path_join u [rel]) [link, ''commit.yaml'']) = Reply 200 body"
    and "yaml_parse w body = Inr (PDict kvs)"
    and "map_of kvs (PStr ''commits'') = Some (PList [])"
  shows "init w u rel link lg = (lg, Inl IndexError)"
  using assms key_of_binding [OF assms(3)]
  by (simp add: init_def fetch_commit_def fetch_yaml_def raw_fetch_def and_then_def)

theorem init_empty_commits_raises_witness:
  "init (serving [(''base/release/current/commit.yaml'', ''commits: []'')]
           (PDict [(PStr ''commits'', PList [])]))
        ''base'' ''release'' ''current'' [] = ([], Inl IndexError)"
proof -
  let ?w = "serving [(''base/release/current/commit.yaml'', ''commits: []'')]
              (PDict [(PStr ''commits'', PList [])])"
  have fetched: "http ?w (path_join (path_join ''base'' [''release''])
                   [''current'', ''commit.yaml'']) = Reply 200 ''commits: []''"
    by (simp add: serving_def path_join_def join_step_def)
  have parsed: "yaml_parse ?w ''commits: []'' = Inr (PDict [(PStr ''commits'', PList [])])"
    by (simp add: serving_def)
  have bound: "map_of [(PStr ''commits'', PList [])] (PStr ''commits'') = Some (PList [])"
    by simp
  show ?thesis
    by (rule init_empty_commits_raises [OF fetched parsed bound])
qed

section \<open>Building the URL\<close>

lemma build_url_str:
  "build_url self \<lparr>commit = PStr h, dist = PStr d, extended = PStr e\<rparr> =
     (PStr h, Inr (path_join (url self)
        [take 2 h, take 2 (drop 2 h),
         h @ (if d = ''None'' then [] else ''_'' @ take 8 d)
           @ (if e = ''None'' then [] else ''_'' @ take 8 e)]))"
  by (simp add: build_url_def path_join_vals_def)

lemma build_url_not_list:
  "\<forall>xs. commit h \<noteq> PList xs \<Longrightarrow> fst (build_url self h) = commit h"
  by (cases "commit h") (simp_all add: build_url_def split: sum.splits prod.splits)

lemma build_url_url: "url s1 = url s2 \<Longrightarrow> build_url s1 h = build_url s2 h"
  by (simp add: build_url_def cong: sum.case_cong prod.case_cong option.case_cong)

text \<open>
  C1: For every hash triple whose commit field is a string, \<^verbatim>\<open>_build_url\<close> returns the base
  URL joined with the first two characters of the commit hash, the next two, and the commit
  hash followed by \<open>_\<close> and the first eight characters of the dist hash, then of the extended
  hash, each suffix only when the value is present and not the string \<open>None\<close>. The code
  does so when both values are strings (\<open>build_url_str\<close>); when one of them is absent, that
  is Python's \<^verbatim>\<open>None\<close>, the comparison with the string \<open>None\<close> lets it through and
  the slice \<^verbatim>\<open>data[0:8]\<close> raises \<^verbatim>\<open>TypeError\<close>: for the commit \<open>aa11bb22\<close>, the dist
  hash \<open>cc33dd44\<close> and no extended hash, no URL is returned.
\<close>

theorem build_url_absent_extended:
  "build_url (example_instance (PStr ''aa11bb22''))
      \<lparr>commit = PStr ''aa11bb22'', dist = PStr ''cc33dd44'', extended = PNone\<rparr>
     = (PStr ''aa11bb22'', Inl TypeError)"
  by (simp add: build_url_def)

section \<open>The accessors\<close>

text \<open>
  C3: When the status of the build was not \<open>SUCCESS\<close> and the commit record is therefore
  empty, \<^verbatim>\<open>versions\<close> should not crash. In the code the three hashes are then \<^verbatim>\<open>None\<close>
  and the first slice of \<^verbatim>\<open>_build_url\<close> raises \<^verbatim>\<open>TypeError\<close>: after the construction
  against a \<^verbatim>\<open>commit.yaml\<close> whose first commit has the status \<open>ERROR\<close>, the accessor
  raises.
\<close>

theorem versions_empty_commit_raises:
  "init (serving [(''base/release/current/commit.yaml'', ''commits'')]
           (commit_yaml ''ERROR'' (PStr ''1234567890abcdef'')))
        ''base'' ''release'' ''current'' []
     = ([Warning (StatusOfError
                   (PDict [(PStr ''status'', PStr ''ERROR''),
                           (PStr ''project_name'', PStr ''foo''),
                           (PStr ''distro_hash'', PStr ''abcd1234''),
                           (PStr ''commit_hash'', PStr ''1234567890abcdef''),
                           (PStr ''extended_hash'', PStr ''None'')]))],
        Inr empty_instance)
   \<and> commit_data empty_instance = Map.empty
   \<and> snd (versions (serving [(''base/release/current/commit.yaml'', ''commits'')]
                      (commit_yaml ''ERROR'' (PStr ''1234567890abcdef'')))
             empty_instance []) = Inl TypeError"
  by (simp add: init_def fetch_commit_def fetch_yaml_def raw_fetch_def path_join_def
      join_step_def and_then_def serving_def commit_yaml_def empty_instance_def
      versions_def dict_get_def build_url_def)

lemma parse_csv_absent:
  assumes "http w u = ConnectionError \<or>
           (\<exists>code body. http w u = Reply code body \<and> code \<noteq> 200)"
  shows "\<exists>lg'. parse_csv w u lg = (lg' @ [Error (''Could not fetch '' @ u @ ''!'')], [], None)"
  using assms by (auto simp: parse_csv_def raw_fetch_def)

text \<open>
  C7: When the fetch of \<^verbatim>\<open>versions.csv\<close> returns nothing (connection failure or a status
  other than 200), \<^verbatim>\<open>versions\<close> logs an error, iterates over no row and returns the empty
  mapping; no exception is raised. The fetch is the one the accessor issues, at the URL it
  built from the commit record.
\<close>

theorem versions_fetch_absent:
  assumes built: "snd (build_url self
             \<lparr>commit = dict_get (commit_data self) ''commit_hash'',
              dist = dict_get (commit_data self) ''dist_hash'',
              extended = dict_get (commit_data self) ''extended_hash''\<rparr>) = Inr u"
    and absent: "http w (path_join u [''versions.csv'']) = ConnectionError \<or>
       (\<exists>code body. http w (path_join u [''versions.csv'']) = Reply code body \<and>
                     code \<noteq> 200)"
  shows "snd (versions w self lg) = Inr Map.empty \<and>
         last (snd (fst (versions w self lg))) =
           Error (''Could not fetch '' @ path_join u [''versions.csv''] @ ''!'')"
proof -
  obtain lg' where p: "parse_csv w (path_join u [''versions.csv'']) lg =
      (lg' @ [Error (''Could not fetch '' @ path_join u [''versions.csv''] @ ''!'')], [], None)"
    using parse_csv_absent [OF absent] by blast
  obtain obj where b: "build_url self
             \<lparr>commit = dict_get (commit_data self) ''commit_hash'',
              dist = dict_get (commit_data self) ''dist_hash'',
              extended = dict_get (commit_data self) ''extended_hash''\<rparr> = (obj, Inr u)"
    using built by (metis prod.collapse)
  show ?thesis
    by (simp add: versions_def Let_def b p for_generator_def and_then_def)
qed

theorem versions_fetch_absent_witness:
  "snd (versions unreachable (example_instance (PStr ''1234567890abcdef'')) [])
     = Inr Map.empty \<and>
   last (snd (fst (versions unreachable (example_instance (PStr ''1234567890abcdef'')) [])))
     = Error ''Could not fetch base/release/12/34/1234567890abcdef_abcd1234/versions.csv!''"
proof -
  let ?self = "example_instance (PStr ''1234567890abcdef'')"
  let ?u = "''base/release/12/34/1234567890abcdef_abcd1234''"
  have built: "snd (build_url ?self
             \<lparr>commit = dict_get (commit_data ?self) ''commit_hash'',
              dist = dict_get (commit_data ?self) ''dist_hash'',
              extended = dict_get (commit_data ?self) ''extended_hash''\<rparr>) = Inr ?u"
    by (simp add: example_instance_def dict_get_def build_url_def path_join_vals_def
        path_join_def join_step_def)
  have absent: "http unreachable (path_join ?u [''versions.csv'']) = ConnectionError \<or>
       (\<exists>code body. http unreachable (path_join ?u [''versions.csv'']) = Reply code body \<and>
                     code \<noteq> 200)"
    by (simp add: unreachable_def)
  show ?thesis
    using versions_fetch_absent [OF built absent, of "[]"]
    by (simp add: path_join_def join_step_def)
qed

section \<open>What the accessors leave unchanged\<close>

lemma versions_frame:
  assumes "\<forall>xs. commit_data self ''commit_hash'' \<noteq> Some (PList xs)"
  shows "fst (fst (versions w self lg)) = self"
  using assms
  by (auto simp: versions_def Let_def split: prod.splits sum.splits option.splits pyval.splits)

lemma step_frame:
  assumes "\<forall>xs. commit_data (fst s) ''commit_hash'' \<noteq> Some (PList xs)"
  shows "fst (step s c) = fst s"
proof (cases s)
  case (Pair self lg)
  then show ?thesis
  proof (cases c)
    case (Pair w m)
    with \<open>s = (self, lg)\<close> assms show ?thesis
      by (cases m) (simp_all add: versions_frame)
  qed
qed

text \<open>
  C8: for every instance whose \<open>commit_hash\<close> is not a list (a string, or absent as in
  the empty record), every sequence of calls of \<^verbatim>\<open>versions\<close> and \<^verbatim>\<open>get_failures\<close>,
  against any remote sides, leaves the commit record, the URL, the release and the link name
  as they were.
\<close>

theorem accessors_frame:
  assumes "\<forall>xs. commit_data self ''commit_hash'' \<noteq> Some (PList xs)"
  shows "fst (run (self, lg) calls) = self"
proof -
  have "\<And>s. \<forall>xs. commit_data (fst s) ''commit_hash'' \<noteq> Some (PList xs)
          \<Longrightarrow> fst (foldl step s calls) = fst s"
  proof (induction calls)
    case Nil
    show ?case by simp
  next
    case (Cons c cs)
    from Cons.prems have "fst (step s c) = fst s" by (rule step_frame)
    with Cons.IH [of "step s c"] Cons.prems show ?case by simp
  qed
  from this [of "(self, lg)"] assms show ?thesis by (simp add: run_def)
qed

theorem accessors_frame_witness:
  "fst (run (example_instance (PStr ''1234567890abcdef''), [])
          [(unreachable, Versions), (unreachable, GetFailures), (unreachable, Versions)])
     = example_instance (PStr ''1234567890abcdef'')"
proof -
  have "\<forall>xs. commit_data (example_instance (PStr ''1234567890abcdef'')) ''commit_hash''
              \<noteq> Some (PList xs)"
    by (simp add: example_instance_def)
  then show ?thesis by (rule accessors_frame)
qed

text \<open>
  Without that condition the frame property fails. When the \<open>commit_hash\<close> of the
  \<^verbatim>\<open>commit.yaml\<close> is a list, the
  constructor stores the list, the hash triple of \<^verbatim>\<open>versions\<close> holds the same object, and
  \<^verbatim>\<open>third += '_' + data[0:8]\<close> extends it in place before \<^verbatim>\<open>os.path.join\<close> raises.
\<close>

theorem versions_extends_list_commit:
  "init (serving [(''base/release/current/commit.yaml'', ''commits'')]
           (commit_yaml ''SUCCESS'' (PList [PStr ''ab''])))
        ''base'' ''release'' ''current'' []
     = ([], Inr (example_instance (PList [PStr ''ab''])))
   \<and> fst (run (example_instance (PList [PStr ''ab'']), []) [(unreachable, Versions)])
     = example_instance
         (PList [PStr ''ab'', PStr ''_'', PStr ''a'', PStr ''b'', PStr ''c'', PStr ''d'',
                 PStr ''1'', PStr ''2'', PStr ''3'', PStr ''4''])
   \<and> fst (run (example_instance (PList [PStr ''ab'']), []) [(unreachable, Versions)])
     \<noteq> example_instance (PList [PStr ''ab''])"
  apply (simp add: init_def fetch_commit_def fetch_yaml_def raw_fetch_def path_join_def
      join_step_def and_then_def serving_def commit_yaml_def example_instance_def
      versions_def dict_get_def build_url_def run_def path_join_vals_def)
  apply (auto simp: fun_eq_iff)
  done

section \<open>\<^verbatim>\<open>get_failures\<close> and the commit record\<close>

lemma failures_row_url: "url s1 = url s2 \<Longrightarrow> failures_row s1 = failures_row s2"
  by (intro ext) (simp add: failures_row_def build_url_url [of s1 s2] cong: if_cong)

lemma parse_csv_http:
  "http w1 u = http w2 u \<Longrightarrow> snd (parse_csv w1 u lga) = snd (parse_csv w2 u lgb)"
  by (simp add: parse_csv_def raw_fetch_def split: response.splits)

lemma get_failures_url:
  assumes "url s1 = url s2"
    and "http w1 (path_join (url s1) [''status_report.csv'']) =
         http w2 (path_join (url s1) [''status_report.csv''])"
  shows "snd (get_failures w1 s1 lga) = snd (get_failures w2 s2 lgb)"
  using parse_csv_http [OF assms(2), of lga lgb] assms(1) failures_row_url [OF assms(1)]
  by (auto simp: get_failures_def split: prod.splits)

text \<open>
  C10: The result of \<^verbatim>\<open>get_failures\<close> does not depend on the commit record. Two instances
  constructed with the same base URL and release, against whatever \<^verbatim>\<open>commit.yaml\<close> and
  link, that are served the same answer for \<^verbatim>\<open>status_report.csv\<close> return the same result.
\<close>

theorem get_failures_ignores_commit:
  assumes "init wa u rel link1 lg1 = (lg1', Inr s1)"
    and "init wb u rel link2 lg2 = (lg2', Inr s2)"
    and "http w1 (path_join (path_join u [rel]) [''status_report.csv'']) =
         http w2 (path_join (path_join u [rel]) [''status_report.csv''])"
  shows "snd (get_failures w1 s1 lga) = snd (get_failures w2 s2 lgb)"
  using init_url [OF assms(1)] init_url [OF assms(2)] assms(3)
  by (intro get_failures_url) simp_all

theorem get_failures_ignores_commit_witness:
  "snd (get_failures (serving [(''base/release/status_report.csv'', status_report_csv)] PNone)
          (example_instance (PStr ''1234567890abcdef'')) [])
   = snd (get_failures (serving [(''base/release/status_report.csv'', status_report_csv)] PNone)
          empty_instance [Error ''earlier''])"
proof -
  have populated:
    "init (serving [(''base/release/current/commit.yaml'', ''commits'')]
             (commit_yaml ''SUCCESS'' (PStr ''1234567890abcdef'')))
          ''base'' ''release'' ''current'' []
       = ([], Inr (example_instance (PStr ''1234567890abcdef'')))"
    by (simp add: init_def fetch_commit_def fetch_yaml_def raw_fetch_def path_join_def
        join_step_def and_then_def serving_def commit_yaml_def example_instance_def)
  have empty:
    "init unreachable ''base'' ''release'' ''current'' []
       = ([Warning (FailedRequest ''base/release/current/commit.yaml'')], Inr empty_instance)"
    by (simp add: init_def fetch_commit_def fetch_yaml_def raw_fetch_def path_join_def
        join_step_def unreachable_def empty_instance_def)
  show ?thesis
    by (rule get_failures_ignores_commit [OF populated empty refl])
qed

section \<open>Parsing CSV\<close>

subsection \<open>Whitespace\<close>

lemma is_space_codes:
  "is_space c \<Longrightarrow> (of_char c :: nat) \<in> {9, 10, 11, 12, 13, 28, 29, 30, 31, 32, 133, 160}"
  unfolding is_space_def Let_def by (simp, presburger)

lemma char_codes:
  "char_of (9::nat) = CHR 0x09" "char_of (10::nat) = CHR 0x0A" "char_of (11::nat) = CHR 0x0B"
  "char_of (12::nat) = CHR 0x0C" "char_of (13::nat) = CHR 0x0D" "char_of (28::nat) = CHR 0x1C"
  "char_of (29::nat) = CHR 0x1D" "char_of (30::nat) = CHR 0x1E" "char_of (31::nat) = CHR 0x1F"
  "char_of (32::nat) = CHR '' ''" "char_of (133::nat) = CHR 0x85" "char_of (160::nat) = CHR 0xA0"
  by (simp_all add: char_of_eq_iff take_bit_eq_mod)

lemma is_space_iff: "is_space c \<longleftrightarrow> other_whitespace c \<or> c = CHR '' ''"
proof
  assume sp: "is_space c"
  have "c = char_of (of_char c :: nat)" by simp
  moreover have "(of_char c :: nat) \<in> {9, 10, 11, 12, 13, 28, 29, 30, 31, 32, 133, 160}"
    using sp by (rule is_space_codes)
  ultimately have "c \<in> {char_of (9::nat), char_of (10::nat), char_of (11::nat),
      char_of (12::nat), char_of (13::nat), char_of (28::nat), char_of (29::nat),
      char_of (30::nat), char_of (31::nat), char_of (32::nat), char_of (133::nat),
      char_of (160::nat)}"
    by (metis (no_types, lifting) insert_iff empty_iff)
  then show "other_whitespace c \<or> c = CHR '' ''"
    unfolding char_codes other_whitespace_def by auto
next
  assume "other_whitespace c \<or> c = CHR '' ''"
  then show "is_space c"
    by (auto simp: other_whitespace_def is_space_def)
qed

subsection \<open>Replacing spaces in the writing of a table\<close>

lemma replace_space_append: "replace_space (a @ b) = replace_space a @ replace_space b"
  by (simp add: replace_space_def)

lemma replace_space_empty: "replace_space a = [] \<longleftrightarrow> a = []"
  by (simp add: replace_space_def)

lemma replace_space_Nil: "replace_space [] = []"
  by (simp add: replace_space_def)

lemma replace_space_quote_cell: "replace_space (quote_cell c) = quote_cell (replace_space c)"
  by (induction c) (simp_all add: replace_space_def quote_cell_def)

lemma replace_space_render_cell:
  "replace_space (render_cell c) = render_cell (fst c, replace_space (snd c))"
  by (simp add: render_cell_def replace_space_quote_cell)

lemma replace_space_join:
  "replace_space (join_with sep xs) = join_with (replace_space sep) (map replace_space xs)"
  by (induction sep xs rule: join_with.induct)
     (simp_all add: replace_space_append replace_space_Nil)

lemma replace_space_render_line:
  "replace_space (render_line r) = render_line (map (\<lambda>c. (fst c, replace_space (snd c))) r)"
  by (simp add: render_line_def replace_space_join comp_def replace_space_render_cell)
     (simp add: replace_space_def)

lemma replace_space_csv_text:
  assumes "replace_space eol = eol"
  shows "replace_space (csv_text eol final t) =
           csv_text eol final (map (map (\<lambda>c. (fst c, replace_space (snd c)))) t)"
  using assms
  by (simp add: csv_text_def replace_space_append replace_space_join comp_def
      replace_space_render_line replace_space_Nil)

subsection \<open>Cutting a text at its line breaks\<close>

lemma split_ws_word:
  "\<forall>c \<in> set l. \<not> is_space c \<Longrightarrow> split_ws cur (l @ rest) = split_ws (cur @ l) rest"
  by (induction l arbitrary: cur) simp_all

lemma split_ws_skip:
  "\<forall>c \<in> set s. is_space c \<Longrightarrow> split_ws [] (s @ rest) = split_ws [] rest"
  by (induction s) simp_all

lemma split_ws_gap:
  assumes "cur \<noteq> []" and "s \<noteq> []" and "\<forall>c \<in> set s. is_space c"
  shows "split_ws cur (s @ rest) = cur # split_ws [] rest"
proof (cases s)
  case Nil
  with assms(2) show ?thesis by simp
next
  case (Cons c s')
  with assms(3) have "is_space c" "\<forall>c \<in> set s'. is_space c" by simp_all
  with Cons assms(1) split_ws_skip [of s' rest] show ?thesis by simp
qed

lemma split_ws_end:
  assumes "cur \<noteq> []" and "\<forall>c \<in> set s. is_space c"
  shows "split_ws cur s = [cur]"
proof (cases "s = []")
  case True
  with assms(1) show ?thesis by simp
next
  case False
  from split_ws_gap [OF assms(1) False assms(2), of "[]"] show ?thesis by simp
qed

lemma split_ws_lines:
  assumes "\<forall>l \<in> set ls. l \<noteq> [] \<and> (\<forall>c \<in> set l. \<not> is_space c)"
    and "eol \<noteq> []" and "\<forall>c \<in> set eol. is_space c" and "\<forall>c \<in> set rest. is_space c"
  shows "split_ws [] (join_with eol ls @ rest) = ls"
  using assms
proof (induction eol ls rule: join_with.induct)
  case (1 sep)
  with split_ws_skip [of rest "[]"] show ?case by simp
next
  case (2 sep x)
  then have x: "x \<noteq> []" "\<forall>c \<in> set x. \<not> is_space c" by simp_all
  have "split_ws [] (x @ rest) = split_ws x rest"
    using split_ws_word [OF x(2), of "[]" rest] by simp
  also have "\<dots> = [x]"
    using x(1) "2.prems"(4) by (rule split_ws_end)
  finally show ?case by simp
next
  case (3 sep x y ys)
  then have x: "x \<noteq> []" "\<forall>c \<in> set x. \<not> is_space c" by simp_all
  have IH: "split_ws [] (join_with sep (y # ys) @ rest) = y # ys"
    using 3 by simp
  have "split_ws [] (join_with sep (x # y # ys) @ rest)
          = split_ws [] (x @ (sep @ (join_with sep (y # ys) @ rest)))"
    by simp
  also have "\<dots> = split_ws x (sep @ (join_with sep (y # ys) @ rest))"
    using split_ws_word [OF x(2), of "[]"] by simp
  also have "\<dots> = x # split_ws [] (join_with sep (y # ys) @ rest)"
    using x(1) "3.prems"(2,3) by (rule split_ws_gap)
  finally show ?case using IH by simp
qed

subsection \<open>The reader on the writing of a row\<close>

lemma process_chars_append:
  "process_chars r (a @ b) = and_then (process_chars r a) (\<lambda>r'. process_chars r' b)"
proof (induction a arbitrary: r)
  case Nil
  show ?case by (simp add: and_then_def)
next
  case (Cons c a)
  show ?case
    by (cases "parse_process_char r (Some c)") (simp_all add: and_then_def Cons)
qed

lemma step_delimiter:
  assumes "state r = START_RECORD \<or> state r = START_FIELD \<or> state r = IN_FIELD \<or>
           state r = QUOTE_IN_QUOTED_FIELD"
  shows "\<exists>r'. parse_process_char r (Some (CHR '','')) = Inr r' \<and> state r' = START_FIELD \<and>
           field r' = [] \<and> saved_fields r' = saved_fields r @ [field r]"
  using assms
  by (cases "state r")
     (simp_all add: parse_process_char_def start_field_def is_newline_def quotechar_def
        delimiter_def parse_save_field_def)

lemma step_plain:
  assumes "state r = START_RECORD \<or> state r = START_FIELD \<or> state r = IN_FIELD"
    and "c \<noteq> CHR '',''" "c \<noteq> CHR 0x22" "c \<noteq> CHR 0x0A" "c \<noteq> CHR 0x0D"
    and "length (field r) < field_limit"
  shows "\<exists>r'. parse_process_char r (Some c) = Inr r' \<and> state r' = IN_FIELD \<and>
           field r' = field r @ [c] \<and> saved_fields r' = saved_fields r"
  using assms
  by (cases "state r")
     (simp_all add: parse_process_char_def start_field_def is_newline_def quotechar_def
        delimiter_def parse_add_char_def and_then_def)

lemma step_open_quote:
  assumes "state r = START_RECORD \<or> state r = START_FIELD"
  shows "\<exists>r'. parse_process_char r (Some (CHR 0x22)) = Inr r' \<and> state r' = IN_QUOTED_FIELD \<and>
           field r' = field r \<and> saved_fields r' = saved_fields r"
  using assms
  by (cases "state r")
     (simp_all add: parse_process_char_def start_field_def is_newline_def quotechar_def)

lemma step_quoted:
  assumes "state r = IN_QUOTED_FIELD" and "c \<noteq> CHR 0x22" and "length (field r) < field_limit"
  shows "\<exists>r'. parse_process_char r (Some c) = Inr r' \<and> state r' = IN_QUOTED_FIELD \<and>
           field r' = field r @ [c] \<and> saved_fields r' = saved_fields r"
  using assms
  by (simp add: parse_process_char_def quotechar_def parse_add_char_def)

lemma step_close_quote:
  assumes "state r = IN_QUOTED_FIELD"
  shows "\<exists>r'. parse_process_char r (Some (CHR 0x22)) = Inr r' \<and>
           state r' = QUOTE_IN_QUOTED_FIELD \<and>
           field r' = field r \<and> saved_fields r' = saved_fields r"
  using assms by (simp add: parse_process_char_def quotechar_def)

lemma step_doubled_quote:
  assumes "state r = QUOTE_IN_QUOTED_FIELD" and "length (field r) < field_limit"
  shows "\<exists>r'. parse_process_char r (Some (CHR 0x22)) = Inr r' \<and> state r' = IN_QUOTED_FIELD \<and>
           field r' = field r @ [CHR 0x22] \<and> saved_fields r' = saved_fields r"
  using assms
  by (simp add: parse_process_char_def quotechar_def parse_add_char_def and_then_def)

lemma end_of_record:
  assumes "state r = START_FIELD \<or> state r = IN_FIELD \<or> state r = QUOTE_IN_QUOTED_FIELD"
  shows "\<exists>r'. parse_process_char r None = Inr r' \<and> state r' = START_RECORD \<and>
           saved_fields r' = saved_fields r @ [field r]"
  using assms
  by (cases "state r")
     (simp_all add: parse_process_char_def start_field_def is_newline_def end_of_line_def
        parse_save_field_def quotechar_def delimiter_def)

lemma plain_cell_run:
  assumes "state r = START_RECORD \<or> state r = START_FIELD \<or> state r = IN_FIELD"
    and "plain_cell c" and "CHR 0x00 \<notin> set c"
    and "length (field r) + length c \<le> field_limit"
  shows "\<exists>r'. process_chars r c = Inr r' \<and> field r' = field r @ c \<and>
           saved_fields r' = saved_fields r \<and>
           (c \<noteq> [] \<longrightarrow> state r' = IN_FIELD) \<and> (c = [] \<longrightarrow> r' = r)"
  using assms
proof (induction c arbitrary: r)
  case Nil
  show ?case by simp
next
  case (Cons x c)
  have x: "x \<noteq> CHR '',''" "x \<noteq> CHR 0x22" "x \<noteq> CHR 0x0A" "x \<noteq> CHR 0x0D" "x \<noteq> CHR 0x00"
    using Cons.prems(2,3) by (auto simp: plain_cell_def)
  have room: "length (field r) < field_limit"
    using Cons.prems(4) by simp
  obtain r1 where r1: "parse_process_char r (Some x) = Inr r1" "state r1 = IN_FIELD"
      "field r1 = field r @ [x]" "saved_fields r1 = saved_fields r"
    using step_plain [OF Cons.prems(1) x(1-4) room] by blast
  have "plain_cell c" "CHR 0x00 \<notin> set c"
    using Cons.prems(2,3) by (auto simp: plain_cell_def)
  moreover have "length (field r1) + length c \<le> field_limit"
    using Cons.prems(4) r1(3) by simp
  ultimately obtain r' where r': "process_chars r1 c = Inr r'" "field r' = field r1 @ c"
      "saved_fields r' = saved_fields r1" "c \<noteq> [] \<longrightarrow> state r' = IN_FIELD" "c = [] \<longrightarrow> r' = r1"
    using Cons.IH [of r1] r1(2) by blast
  have "process_chars r (x # c) = Inr r'"
    using x(5) r1(1) r'(1) by (simp add: and_then_def)
  moreover have "state r' = IN_FIELD"
    using r'(4,5) r1(2) by (cases "c = []") auto
  ultimately show ?case using r'(2,3) r1(3,4) by simp
qed

lemma quoted_body_run:
  assumes "state r = IN_QUOTED_FIELD" and "CHR 0x00 \<notin> set c"
    and "length (field r) + length c \<le> field_limit"
  shows "\<exists>r'. process_chars r
                 (concat (map (\<lambda>x. if x = CHR 0x22 then [CHR 0x22, CHR 0x22] else [x]) c)) = Inr r' \<and>
           state r' = IN_QUOTED_FIELD \<and> field r' = field r @ c \<and>
           saved_fields r' = saved_fields r"
  using assms
proof (induction c arbitrary: r)
  case Nil
  then show ?case by simp
next
  case (Cons x c)
  let ?body = "concat (map (\<lambda>x. if x = CHR 0x22 then [CHR 0x22, CHR 0x22] else [x]) c)"
  have x0: "x \<noteq> CHR 0x00" and c0: "CHR 0x00 \<notin> set c"
    using Cons.prems(2) by auto
  have room: "length (field r) < field_limit"
    using Cons.prems(3) by simp
  have "\<exists>r1. process_chars r (if x = CHR 0x22 then [CHR 0x22, CHR 0x22] else [x]) = Inr r1 \<and>
          state r1 = IN_QUOTED_FIELD \<and> field r1 = field r @ [x] \<and>
          saved_fields r1 = saved_fields r"
  proof (cases "x = CHR 0x22")
    case True
    obtain ra where ra: "parse_process_char r (Some (CHR 0x22)) = Inr ra"
        "state ra = QUOTE_IN_QUOTED_FIELD" "field ra = field r" "saved_fields ra = saved_fields r"
      using step_close_quote [OF Cons.prems(1)] by blast
    obtain rb where rb: "parse_process_char ra (Some (CHR 0x22)) = Inr rb"
        "state rb = IN_QUOTED_FIELD" "field rb = field ra @ [CHR 0x22]"
        "saved_fields rb = saved_fields ra"
      using step_doubled_quote [OF ra(2)] room ra(3) by auto
    show ?thesis
      using True ra rb by (simp add: and_then_def)
  next
    case False
    obtain ra where ra: "parse_process_char r (Some x) = Inr ra"
        "state ra = IN_QUOTED_FIELD" "field ra = field r @ [x]" "saved_fields ra = saved_fields r"
      using step_quoted [OF Cons.prems(1) False room] by blast
    show ?thesis
      using False x0 ra by (simp add: and_then_def)
  qed
  then obtain r1 where r1:
      "process_chars r (if x = CHR 0x22 then [CHR 0x22, CHR 0x22] else [x]) = Inr r1"
      "state r1 = IN_QUOTED_FIELD" "field r1 = field r @ [x]" "saved_fields r1 = saved_fields r"
    by blast
  have "length (field r1) + length c \<le> field_limit"
    using Cons.prems(3) r1(3) by simp
  then obtain r' where r': "process_chars r1 ?body = Inr r'" "state r' = IN_QUOTED_FIELD"
      "field r' = field r1 @ c" "saved_fields r' = saved_fields r1"
    using Cons.IH [OF r1(2) c0] by blast
  have "process_chars r
          ((if x = CHR 0x22 then [CHR 0x22, CHR 0x22] else [x]) @ ?body) = Inr r'"
    unfolding process_chars_append using r1(1) r'(1) by (simp add: and_then_def)
  then show ?case using r'(2,3,4) r1(3,4) by simp
qed

lemma quoted_cell_run:
  assumes "state r = START_RECORD \<or> state r = START_FIELD" and "CHR 0x00 \<notin> set c"
    and "length (field r) + length c \<le> field_limit"
  shows "\<exists>r'. process_chars r (quote_cell c) = Inr r' \<and> state r' = QUOTE_IN_QUOTED_FIELD \<and>
           field r' = field r @ c \<and> saved_fields r' = saved_fields r"
proof -
  let ?body = "concat (map (\<lambda>x. if x = CHR 0x22 then [CHR 0x22, CHR 0x22] else [x]) c)"
  obtain r1 where r1: "parse_process_char r (Some (CHR 0x22)) = Inr r1"
      "state r1 = IN_QUOTED_FIELD" "field r1 = field r" "saved_fields r1 = saved_fields r"
    using step_open_quote [OF assms(1)] by blast
  have "length (field r1) + length c \<le> field_limit"
    using assms(3) r1(3) by simp
  then obtain r2 where r2: "process_chars r1 ?body = Inr r2" "state r2 = IN_QUOTED_FIELD"
      "field r2 = field r1 @ c" "saved_fields r2 = saved_fields r1"
    using quoted_body_run [OF r1(2) assms(2)] by blast
  obtain r3 where r3: "parse_process_char r2 (Some (CHR 0x22)) = Inr r3"
      "state r3 = QUOTE_IN_QUOTED_FIELD" "field r3 = field r2" "saved_fields r3 = saved_fields r2"
    using step_close_quote [OF r2(2)] by blast
  have "process_chars r1 (?body @ [CHR 0x22]) = Inr r3"
    unfolding process_chars_append using r2(1) r3(1) by (simp add: and_then_def)
  then have "process_chars r (quote_cell c) = Inr r3"
    using r1(1) by (simp add: quote_cell_def and_then_def)
  then show ?thesis using r3(2,3,4) r2(3,4) r1(3,4) by simp
qed

lemma cell_run:
  assumes "state r = START_RECORD \<or> state r = START_FIELD" and "field r = []"
    and "fst c \<or> plain_cell (snd c)" and "CHR 0x00 \<notin> set (snd c)"
    and "length (snd c) \<le> field_limit"
  shows "\<exists>r'. process_chars r (render_cell c) = Inr r' \<and> field r' = snd c \<and>
           saved_fields r' = saved_fields r \<and>
           (state r' = IN_FIELD \<or> state r' = QUOTE_IN_QUOTED_FIELD \<or>
            render_cell c = [] \<and> state r' = state r)"
proof (cases "fst c")
  case True
  have "length (field r) + length (snd c) \<le> field_limit"
    using assms(2,5) by simp
  then obtain r' where "process_chars r (quote_cell (snd c)) = Inr r'"
      "state r' = QUOTE_IN_QUOTED_FIELD" "field r' = field r @ snd c"
      "saved_fields r' = saved_fields r"
    using quoted_cell_run [OF assms(1,4)] by blast
  with True assms(2) show ?thesis
    by (simp add: render_cell_def)
next
  case False
  with assms(3) have p: "plain_cell (snd c)" by simp
  have st: "state r = START_RECORD \<or> state r = START_FIELD \<or> state r = IN_FIELD"
    using assms(1) by blast
  have "length (field r) + length (snd c) \<le> field_limit"
    using assms(2,5) by simp
  then obtain r' where r': "process_chars r (snd c) = Inr r'" "field r' = field r @ snd c"
      "saved_fields r' = saved_fields r" "snd c \<noteq> [] \<longrightarrow> state r' = IN_FIELD"
      "snd c = [] \<longrightarrow> r' = r"
    using plain_cell_run [OF st p assms(4)] by blast
  show ?thesis
  proof (cases "snd c = []")
    case True
    with r' False assms(2) show ?thesis by (simp add: render_cell_def)
  next
    case nonempty: False
    with r' False assms(2) show ?thesis by (simp add: render_cell_def)
  qed
qed

lemma render_line_Cons:
  "cs \<noteq> [] \<Longrightarrow> render_line (c # cs) = render_cell c @ CHR '','' # render_line cs"
  by (cases cs) (simp_all add: render_line_def)

lemma render_line_single: "render_line [c] = render_cell c"
  by (simp add: render_line_def)

lemma line_run:
  assumes "state r = START_RECORD \<or> state r = START_FIELD" and "field r = []" and "cs \<noteq> []"
    and "\<forall>c \<in> set cs. (fst c \<or> plain_cell (snd c)) \<and> CHR 0x00 \<notin> set (snd c) \<and>
                        length (snd c) \<le> field_limit"
  shows "\<exists>r'. process_chars r (render_line cs) = Inr r' \<and>
           saved_fields r' @ [field r'] = saved_fields r @ map snd cs \<and>
           (state r' = START_FIELD \<or> state r' = IN_FIELD \<or> state r' = QUOTE_IN_QUOTED_FIELD \<or>
            render_line cs = [] \<and> state r' = state r)"
  using assms
proof (induction cs arbitrary: r)
  case Nil
  then show ?case by simp
next
  case (Cons c cs)
  have c: "fst c \<or> plain_cell (snd c)" "CHR 0x00 \<notin> set (snd c)" "length (snd c) \<le> field_limit"
    using Cons.prems(4) by simp_all
  obtain r1 where r1: "process_chars r (render_cell c) = Inr r1" "field r1 = snd c"
      "saved_fields r1 = saved_fields r"
      "state r1 = IN_FIELD \<or> state r1 = QUOTE_IN_QUOTED_FIELD \<or> render_cell c = [] \<and> state r1 = state r"
    using cell_run [OF Cons.prems(1,2) c] by blast
  show ?case
  proof (cases "cs = []")
    case True
    have "process_chars r (render_line (c # cs)) = Inr r1"
      using r1(1) True by (simp add: render_line_single)
    moreover have "saved_fields r1 @ [field r1] = saved_fields r @ map snd (c # cs)"
      using r1(2,3) True by simp
    moreover have "state r1 = START_FIELD \<or> state r1 = IN_FIELD \<or>
                   state r1 = QUOTE_IN_QUOTED_FIELD \<or> render_line (c # cs) = [] \<and> state r1 = state r"
      using r1(4) True by (auto simp: render_line_single)
    ultimately show ?thesis by (intro exI [of _ r1]) simp
  next
    case False
    have st1: "state r1 = START_RECORD \<or> state r1 = START_FIELD \<or> state r1 = IN_FIELD \<or>
               state r1 = QUOTE_IN_QUOTED_FIELD"
      using r1(4) Cons.prems(1) by auto
    obtain r2 where r2: "parse_process_char r1 (Some (CHR '','')) = Inr r2"
        "state r2 = START_FIELD" "field r2 = []" "saved_fields r2 = saved_fields r1 @ [field r1]"
      using step_delimiter [OF st1] by blast
    have rest: "\<forall>c \<in> set cs. (fst c \<or> plain_cell (snd c)) \<and> CHR 0x00 \<notin> set (snd c) \<and>
                        length (snd c) \<le> field_limit"
      using Cons.prems(4) by simp
    have st2: "state r2 = START_RECORD \<or> state r2 = START_FIELD"
      using r2(2) by simp
    obtain r' where r': "process_chars r2 (render_line cs) = Inr r'"
        "saved_fields r' @ [field r'] = saved_fields r2 @ map snd cs"
        "state r' = START_FIELD \<or> state r' = IN_FIELD \<or> state r' = QUOTE_IN_QUOTED_FIELD \<or>
         render_line cs = [] \<and> state r' = state r2"
      using Cons.IH [OF st2 r2(3) False rest] by blast
    have "process_chars r1 (CHR '','' # render_line cs) = Inr r'"
      using r2(1) r'(1) by (simp add: and_then_def)
    then have "process_chars r (render_line (c # cs)) = Inr r'"
      unfolding render_line_Cons [OF False] process_chars_append
      using r1(1) by (simp add: and_then_def)
    moreover have "saved_fields r' @ [field r'] = saved_fields r @ map snd (c # cs)"
      using r'(2) r2(4) r1(2,3) by simp
    moreover have "state r' = START_FIELD \<or> state r' = IN_FIELD \<or>
                   state r' = QUOTE_IN_QUOTED_FIELD"
      using r'(3) r2(2) by auto
    ultimately show ?thesis by (intro exI [of _ r']) auto
  qed
qed

lemma process_line_rendered:
  assumes "render_line cs \<noteq> []"
    and "\<forall>c \<in> set cs. (fst c \<or> plain_cell (snd c)) \<and> CHR 0x00 \<notin> set (snd c) \<and>
                        length (snd c) \<le> field_limit"
  shows "\<exists>r. process_line parse_reset (render_line cs) = Inr r \<and> state r = START_RECORD \<and>
             saved_fields r = map snd cs"
proof -
  have ne: "cs \<noteq> []"
    using assms(1) by (auto simp: render_line_def)
  have st: "state parse_reset = START_RECORD \<or> state parse_reset = START_FIELD"
    and f: "field parse_reset = []"
    by (simp_all add: parse_reset_def)
  obtain r' where r': "process_chars parse_reset (render_line cs) = Inr r'"
      "saved_fields r' @ [field r'] = saved_fields parse_reset @ map snd cs"
      "state r' = START_FIELD \<or> state r' = IN_FIELD \<or> state r' = QUOTE_IN_QUOTED_FIELD"
    using line_run [OF st f ne assms(2)] assms(1) by blast
  obtain r where r: "parse_process_char r' None = Inr r" "state r = START_RECORD"
      "saved_fields r = saved_fields r' @ [field r']"
    using end_of_record [OF r'(3)] by blast
  have "process_line parse_reset (render_line cs) = Inr r"
    using r'(1) r(1) by (simp add: process_line_def and_then_def)
  moreover have "saved_fields r = map snd cs"
    using r(3) r'(2) by (simp add: parse_reset_def)
  ultimately show ?thesis using r(2) by blast
qed

lemma reader_records_rendered:
  assumes "\<forall>cs \<in> set t. render_line cs \<noteq> [] \<and>
             (\<forall>c \<in> set cs. (fst c \<or> plain_cell (snd c)) \<and> CHR 0x00 \<notin> set (snd c) \<and>
                             length (snd c) \<le> field_limit)"
  shows "reader_records parse_reset (map render_line t) = (map (map snd) t, None)"
  using assms
proof (induction t)
  case Nil
  show ?case by (simp add: parse_reset_def)
next
  case (Cons cs t)
  obtain r where r: "process_line parse_reset (render_line cs) = Inr r" "state r = START_RECORD"
    "saved_fields r = map snd cs"
    using process_line_rendered [of cs] Cons.prems by auto
  have "reader_records parse_reset (map render_line t) = (map (map snd) t, None)"
    using Cons by simp
  with r show ?case by simp
qed

lemma dict_reader_rendered:
  assumes "\<forall>cs \<in> set (h # t). render_line cs \<noteq> [] \<and>
             (\<forall>c \<in> set cs. (fst c \<or> plain_cell (snd c)) \<and> CHR 0x00 \<notin> set (snd c) \<and>
                             length (snd c) \<le> field_limit)"
  shows "dict_reader (map render_line (h # t)) =
           (map (\<lambda>cs. make_row (map snd h) (map snd cs)) t, None)"
proof -
  have rd: "reader_records parse_reset (map render_line (h # t)) = (map (map snd) (h # t), None)"
    using assms by (rule reader_records_rendered)
  have "\<forall>cs \<in> set t. cs \<noteq> []"
    using assms by (auto simp: render_line_def)
  then have keep: "filter (\<lambda>r. r \<noteq> []) (map (map snd) t) = map (map snd) t"
    by (induction t) simp_all
  show ?thesis
    using rd keep by (simp add: dict_reader_def comp_def)
qed

lemma join_with_chars: "set (join_with sep xs) \<subseteq> set sep \<union> (\<Union>x \<in> set xs. set x)"
  by (induction sep xs rule: join_with.induct) auto

lemma render_cell_chars: "set (render_cell c) \<subseteq> {CHR 0x22} \<union> set (snd c)"
  by (auto simp: render_cell_def quote_cell_def split: if_splits)

lemma render_line_chars:
  assumes "x \<in> set (render_line cs)"
  shows "x = CHR '','' \<or> x = CHR 0x22 \<or> (\<exists>c \<in> set cs. x \<in> set (snd c))"
proof -
  from assms join_with_chars [of "'',''" "map render_cell cs"]
  have "x = CHR '','' \<or> (\<exists>c \<in> set cs. x \<in> set (render_cell c))"
    by (auto simp: render_line_def)
  with render_cell_chars show ?thesis by blast
qed

lemma replace_space_chars:
  "x \<in> set (replace_space c) \<Longrightarrow> x = CHR ''_'' \<or> x \<in> set c \<and> x \<noteq> CHR '' ''"
  by (auto simp: replace_space_def split: if_splits)

lemma replace_space_plain: "plain_cell c \<Longrightarrow> plain_cell (replace_space c)"
  unfolding plain_cell_def using replace_space_chars [of _ c] by fastforce

lemma replace_space_length: "length (replace_space c) = length c"
  by (simp add: replace_space_def)

lemma replace_space_readable:
  assumes "readable_cell c"
  shows "CHR 0x00 \<notin> set (replace_space c)" and "length (replace_space c) \<le> field_limit"
    and "\<forall>x \<in> set (replace_space c). \<not> is_space x"
proof -
  show "CHR 0x00 \<notin> set (replace_space c)"
    using assms replace_space_chars [of "CHR 0x00" c] by (auto simp: readable_cell_def)
  show "length (replace_space c) \<le> field_limit"
    using assms by (simp add: readable_cell_def replace_space_length)
  show "\<forall>x \<in> set (replace_space c). \<not> is_space x"
  proof
    fix x assume "x \<in> set (replace_space c)"
    then have "x = CHR ''_'' \<or> x \<in> set c \<and> x \<noteq> CHR '' ''"
      by (rule replace_space_chars)
    then show "\<not> is_space x"
    proof
      assume "x = CHR ''_''"
      then show ?thesis by (simp add: is_space_def)
    next
      assume "x \<in> set c \<and> x \<noteq> CHR '' ''"
      with assms show ?thesis by (auto simp: readable_cell_def is_space_iff)
    qed
  qed
qed

lemma parse_csv_table:
  assumes fetched: "http w u = Reply 200 (csv_text eol final (h # t))"
    and eol: "eol = [CHR 0x0A] \<or> eol = [CHR 0x0D, CHR 0x0A]"
    and cells: "\<forall>r \<in> set (h # t). render_line r \<noteq> [] \<and>
                  (\<forall>c \<in> set r. (fst c \<or> plain_cell (snd c)) \<and> readable_cell (snd c))"
  shows "parse_csv w u lg =
           (lg, map (\<lambda>r. make_row (underscored h) (underscored r)) t, None)"
proof -
  let ?u = "map (\<lambda>c. (fst c, replace_space (snd c)))"
  have eol_same: "replace_space eol = eol"
    using eol by (auto simp: replace_space_def)
  have eol_space: "eol \<noteq> []" "\<forall>c \<in> set eol. is_space c"
    using eol by (auto simp: is_space_def)
  have end_space: "\<forall>c \<in> set (if final then eol else []). is_space c"
    using eol_space by simp
  have replaced: "replace_space (csv_text eol final (h # t)) =
                join_with eol (map render_line (map ?u (h # t))) @ (if final then eol else [])"
    unfolding replace_space_csv_text [OF eol_same] by (simp add: csv_text_def)
  have lines: "\<forall>l \<in> set (map render_line (map ?u (h # t))).
                 l \<noteq> [] \<and> (\<forall>x \<in> set l. \<not> is_space x)"
  proof
    fix l assume "l \<in> set (map render_line (map ?u (h # t)))"
    then obtain r where r: "r \<in> set (h # t)" "l = render_line (?u r)" by auto
    have "l = replace_space (render_line r)"
      using r(2) by (simp add: replace_space_render_line)
    moreover have "render_line r \<noteq> []" using cells r(1) by blast
    ultimately have ne: "l \<noteq> []" by (simp add: replace_space_empty)
    have "\<not> is_space x" if "x \<in> set l" for x
    proof -
      from that r(2) render_line_chars [of x "?u r"]
      have "x = CHR '','' \<or> x = CHR 0x22 \<or> (\<exists>c \<in> set r. x \<in> set (replace_space (snd c)))"
        by auto
      moreover have "\<not> is_space (CHR '','')" "\<not> is_space (CHR 0x22)"
        by (simp_all add: is_space_def)
      moreover have "\<forall>c \<in> set r. \<forall>x \<in> set (replace_space (snd c)). \<not> is_space x"
        using cells r(1) replace_space_readable(3) by blast
      ultimately show ?thesis by blast
    qed
    with ne show "l \<noteq> [] \<and> (\<forall>x \<in> set l. \<not> is_space x)" by blast
  qed
  have split: "py_split (replace_space (csv_text eol final (h # t))) =
                 map render_line (?u h # map ?u t)"
    unfolding replaced py_split_def
    using split_ws_lines [OF lines eol_space end_space] by simp
  have ok: "\<forall>cs \<in> set (?u h # map ?u t). render_line cs \<noteq> [] \<and>
              (\<forall>c \<in> set cs. (fst c \<or> plain_cell (snd c)) \<and> CHR 0x00 \<notin> set (snd c) \<and>
                              length (snd c) \<le> field_limit)"
  proof
    fix cs assume "cs \<in> set (?u h # map ?u t)"
    then obtain r where r: "r \<in> set (h # t)" "cs = ?u r" by auto
    have "render_line cs \<in> set (map render_line (map ?u (h # t)))"
      using r by auto
    with lines have ne: "render_line cs \<noteq> []" by blast
    have "(fst c \<or> plain_cell (snd c)) \<and> CHR 0x00 \<notin> set (snd c) \<and>
          length (snd c) \<le> field_limit" if "c \<in> set cs" for c
    proof -
      from that r(2) obtain c0 where c0: "c0 \<in> set r" "c = (fst c0, replace_space (snd c0))"
        by auto
      with cells r(1) have "fst c0 \<or> plain_cell (snd c0)" "readable_cell (snd c0)"
        by blast+
      with c0(2) show ?thesis
        using replace_space_plain replace_space_readable(1,2) by auto
    qed
    with ne show "render_line cs \<noteq> [] \<and>
              (\<forall>c \<in> set cs. (fst c \<or> plain_cell (snd c)) \<and> CHR 0x00 \<notin> set (snd c) \<and>
                              length (snd c) \<le> field_limit)" by blast
  qed
  have "dict_reader (map render_line (?u h # map ?u t)) =
          (map (\<lambda>cs. make_row (map snd (?u h)) (map snd cs)) (map ?u t), None)"
    using ok by (rule dict_reader_rendered)
  also have "\<dots> = (map (\<lambda>r. make_row (underscored h) (underscored r)) t, None)"
    by (simp add: underscored_def comp_def)
  finally show ?thesis
    using fetched split by (simp add: parse_csv_def raw_fetch_def)
qed

subsection \<open>The rows of a table\<close>

lemma zip_update_other:
  "k \<notin> fst ` set kvs \<Longrightarrow>
     foldl (\<lambda>m (k, v). m(PStr k \<mapsto> PStr v)) m kvs (PStr k) = m (PStr k)"
  by (induction kvs arbitrary: m) (auto simp: image_iff)

lemma zip_update_lookup:
  "distinct (map fst kvs) \<Longrightarrow> (k, v) \<in> set kvs \<Longrightarrow>
     foldl (\<lambda>m (k, v). m(PStr k \<mapsto> PStr v)) m kvs (PStr k) = Some (PStr v)"
proof (induction kvs arbitrary: m)
  case Nil
  then show ?case by simp
next
  case (Cons a kvs)
  show ?case
  proof (cases "a = (k, v)")
    case True
    with Cons.prems have "k \<notin> fst ` set kvs" by (auto simp: image_iff)
    then have "foldl (\<lambda>m (k, v). m(PStr k \<mapsto> PStr v)) (m(PStr k \<mapsto> PStr v)) kvs (PStr k)
                 = (m(PStr k \<mapsto> PStr v)) (PStr k)"
      by (rule zip_update_other)
    with True show ?thesis by (simp del: fun_upd_apply) simp
  next
    case False
    with Cons.prems have "distinct (map fst kvs)" "(k, v) \<in> set kvs" by auto
    from Cons.IH [OF this] show ?thesis by simp
  qed
qed

lemma zip_update_dom:
  "dom (foldl (\<lambda>m (k, v). m(PStr k \<mapsto> PStr v)) m kvs) = dom m \<union> PStr ` fst ` set kvs"
  by (induction kvs arbitrary: m) auto

lemma make_row_rectangular:
  assumes "length hs = length cs" and "distinct hs"
  shows "dom (make_row hs cs) = PStr ` set hs"
    and "j < length hs \<Longrightarrow> make_row hs cs (PStr (hs ! j)) = Some (PStr (cs ! j))"
proof -
  have row: "make_row hs cs = foldl (\<lambda>m (k, v). m(PStr k \<mapsto> PStr v)) Map.empty (zip hs cs)"
    using assms(1) by (simp add: make_row_def)
  have fst_zip: "map fst (zip hs cs) = hs"
    using assms(1) by simp
  show "dom (make_row hs cs) = PStr ` set hs"
    unfolding row zip_update_dom using fst_zip by (metis dom_empty image_set sup_bot.left_neutral)
  show "make_row hs cs (PStr (hs ! j)) = Some (PStr (cs ! j))" if "j < length hs"
  proof -
    have "(hs ! j, cs ! j) \<in> set (zip hs cs)"
      using that assms(1) by (metis in_set_zip fst_conv snd_conv)
    moreover have "distinct (map fst (zip hs cs))"
      using fst_zip assms(2) by simp
    ultimately show ?thesis unfolding row by (rule zip_update_lookup [rotated])
  qed
qed

text \<open>
  C6: For every well-formed CSV text that is fetched with success, whose cells hold no
  whitespace other than the space, no character 0 and no more characters than the field size
  limit of the reader, and whose header names stay distinct when their spaces are replaced,
  \<^verbatim>\<open>_parse_csv\<close> yields one mapping per data row, in the order of the rows: its keys are
  the header names, and the value under a name is the cell of the row in that column, both
  with every space replaced by an underscore. The log is unchanged and the iteration ends
  without an exception. A well-formed CSV text is the writing of a well-formed table, with
  the line feed, or the carriage return and the line feed, as the line break, after the last
  line or not.
\<close>

theorem parse_csv_well_formed:
  assumes fetched: "http w u = Reply 200 (csv_text eol final (header # rows))"
    and eol: "eol = [CHR 0x0A] \<or> eol = [CHR 0x0D, CHR 0x0A]"
    and wf: "well_formed_table (header # rows)"
    and readable: "\<forall>r \<in> set (header # rows). \<forall>c \<in> set r. readable_cell (snd c)"
    and names: "distinct (underscored header)"
  shows "\<exists>ms. parse_csv w u lg = (lg, ms, None) \<and> length ms = length rows \<and>
           (\<forall>i < length rows.
              dom (ms ! i) = PStr ` set (underscored header) \<and>
              (\<forall>j < length header.
                 (ms ! i) (PStr (replace_space (snd (header ! j)))) =
                   Some (PStr (replace_space (snd (rows ! i ! j))))))"
proof -
  let ?ms = "map (\<lambda>r. make_row (underscored header) (underscored r)) rows"
  have cells: "\<forall>r \<in> set (header # rows). render_line r \<noteq> [] \<and>
                  (\<forall>c \<in> set r. (fst c \<or> plain_cell (snd c)) \<and> readable_cell (snd c))"
    using wf readable unfolding well_formed_table_def by blast
  have p: "parse_csv w u lg = (lg, ?ms, None)"
    using fetched eol cells by (rule parse_csv_table)
  have each: "dom (?ms ! i) = PStr ` set (underscored header) \<and>
              (\<forall>j < length header.
                 (?ms ! i) (PStr (replace_space (snd (header ! j)))) =
                   Some (PStr (replace_space (snd (rows ! i ! j)))))"
    if i: "i < length rows" for i
  proof -
    have "rows ! i \<in> set (header # rows)" using i by simp
    then have "length (rows ! i) = length header"
      using wf unfolding well_formed_table_def by (metis list.sel(1))
    then have eq: "length (underscored header) = length (underscored (rows ! i))"
      by (simp add: underscored_def)
    have r: "?ms ! i = make_row (underscored header) (underscored (rows ! i))"
      using i by simp
    have "(?ms ! i) (PStr (replace_space (snd (header ! j)))) =
            Some (PStr (replace_space (snd (rows ! i ! j))))" if j: "j < length header" for j
    proof -
      have "j < length (underscored header)" using j by (simp add: underscored_def)
      from make_row_rectangular(2) [OF eq names this]
      show ?thesis
        unfolding r using j \<open>length (rows ! i) = length header\<close>
        by (simp add: underscored_def)
    qed
    with make_row_rectangular(1) [OF eq names] r show ?thesis by simp
  qed
  from p each show ?thesis by (intro exI [of _ ?ms]) simp
qed

lemma quoted_table_ok:
  "well_formed_table quoted_table"
  "\<forall>r \<in> set quoted_table. \<forall>c \<in> set r. readable_cell (snd c)"
  "distinct (underscored (hd quoted_table))"
  by (simp_all add: quoted_table_def well_formed_table_def render_line_def render_cell_def
      quote_cell_def plain_cell_def readable_cell_def other_whitespace_def field_limit_def
      underscored_def replace_space_def)

theorem parse_csv_well_formed_witness:
  "csv_text [CHR 0x0D, CHR 0x0A] False quoted_table =
     ''Project,'' @ [CHR 0x22] @ ''Pkg NVR'' @ [CHR 0x22] @ '',Note'' @ [CHR 0x0D, CHR 0x0A] @
     ''foo,foo-1.0-1,'' @ [CHR 0x22] @ ''built, signed'' @ [CHR 0x22] @ [CHR 0x0D, CHR 0x0A] @
     [CHR 0x22] @ ''bar'' @ [CHR 0x22] @ '',,'' @
     [CHR 0x22] @ ''say '' @ [CHR 0x22, CHR 0x22] @ ''hi'' @ [CHR 0x22, CHR 0x22] @ [CHR 0x22] \<and>
   (\<exists>ms. parse_csv (serving [(''base/release/notes.csv'',
                               csv_text [CHR 0x0D, CHR 0x0A] False quoted_table)] PNone)
            ''base/release/notes.csv'' [] = ([], ms, None) \<and>
         length ms = 2 \<and>
         dom (ms ! 0) = {PStr ''Project'', PStr ''Pkg_NVR'', PStr ''Note''} \<and>
         (ms ! 0) (PStr ''Note'') = Some (PStr ''built,_signed'') \<and>
         (ms ! 1) (PStr ''Project'') = Some (PStr ''bar'') \<and>
         (ms ! 1) (PStr ''Pkg_NVR'') = Some (PStr []) \<and>
         (ms ! 1) (PStr ''Note'') = Some (PStr (''say_'' @ [CHR 0x22] @ ''hi'' @ [CHR 0x22])))"
proof
  show "csv_text [CHR 0x0D, CHR 0x0A] False quoted_table =
     ''Project,'' @ [CHR 0x22] @ ''Pkg NVR'' @ [CHR 0x22] @ '',Note'' @ [CHR 0x0D, CHR 0x0A] @
     ''foo,foo-1.0-1,'' @ [CHR 0x22] @ ''built, signed'' @ [CHR 0x22] @ [CHR 0x0D, CHR 0x0A] @
     [CHR 0x22] @ ''bar'' @ [CHR 0x22] @ '',,'' @
     [CHR 0x22] @ ''say '' @ [CHR 0x22, CHR 0x22] @ ''hi'' @ [CHR 0x22, CHR 0x22] @ [CHR 0x22]"
    by (simp add: csv_text_def quoted_table_def render_line_def render_cell_def quote_cell_def)
next
  let ?data = "csv_text [CHR 0x0D, CHR 0x0A] False quoted_table"
  let ?w = "serving [(''base/release/notes.csv'', ?data)] PNone"
  let ?header = "[(False, ''Project''), (True, ''Pkg NVR''), (False, ''Note'')]"
  let ?rows = "[[(False, ''foo''), (False, ''foo-1.0-1''), (True, ''built, signed'')],
                [(True, ''bar''), (False, []),
                 (True, ''say '' @ [CHR 0x22] @ ''hi'' @ [CHR 0x22])]]"
  have table: "quoted_table = ?header # ?rows"
    by (simp add: quoted_table_def)
  have fetched: "http ?w ''base/release/notes.csv'' =
                   Reply 200 (csv_text [CHR 0x0D, CHR 0x0A] False (?header # ?rows))"
    by (simp add: serving_def table)
  have eol: "[CHR 0x0D, CHR 0x0A] = [CHR 0x0A] \<or> [CHR 0x0D, CHR 0x0A] = [CHR 0x0D, CHR 0x0A]"
    by simp
  have wf: "well_formed_table (?header # ?rows)"
    and readable: "\<forall>r \<in> set (?header # ?rows). \<forall>c \<in> set r. readable_cell (snd c)"
    and names: "distinct (underscored ?header)"
    using quoted_table_ok unfolding table by simp_all
  obtain ms where ms:
    "parse_csv ?w ''base/release/notes.csv'' [] = ([], ms, None)"
    "length ms = length ?rows"
    "\<forall>i < length ?rows.
        dom (ms ! i) = PStr ` set (underscored ?header) \<and>
        (\<forall>j < length ?header.
           (ms ! i) (PStr (replace_space (snd (?header ! j)))) =
             Some (PStr (replace_space (snd (?rows ! i ! j)))))"
    using parse_csv_well_formed [OF fetched eol wf readable names, of "[]"] by blast
  have i0: "0 < length ?rows" and i1: "1 < length ?rows" by simp_all
  have j0: "0 < length ?header" and j1: "1 < length ?header" and j2: "2 < length ?header"
    by simp_all
  note first = ms(3) [rule_format, OF i0]
  note second = ms(3) [rule_format, OF i1]
  from ms(1,2) first [THEN conjunct1] first [THEN conjunct2, rule_format, OF j2]
    second [THEN conjunct2, rule_format, OF j0] second [THEN conjunct2, rule_format, OF j1]
    second [THEN conjunct2, rule_format, OF j2]
  show "\<exists>ms. parse_csv ?w ''base/release/notes.csv'' [] = ([], ms, None) \<and>
         length ms = 2 \<and>
         dom (ms ! 0) = {PStr ''Project'', PStr ''Pkg_NVR'', PStr ''Note''} \<and>
         (ms ! 0) (PStr ''Note'') = Some (PStr ''built,_signed'') \<and>
         (ms ! 1) (PStr ''Project'') = Some (PStr ''bar'') \<and>
         (ms ! 1) (PStr ''Pkg_NVR'') = Some (PStr []) \<and>
         (ms ! 1) (PStr ''Note'') = Some (PStr (''say_'' @ [CHR 0x22] @ ''hi'' @ [CHR 0x22]))"
    by (intro exI [of _ ms]) (simp add: underscored_def replace_space_def)
qed

lemma tabbed_table_text:
  "csv_text [CHR 0x0A] True tabbed_table =
     ''Project,Status\<newline>foo'' @ [CHR 0x09] @ ''bar,FAILED\<newline>''"
  by (simp add: csv_text_def tabbed_table_def render_line_def render_cell_def)

lemma tabbed_table_lines:
  "py_split (replace_space (csv_text [CHR 0x0A] True tabbed_table)) =
     map render_line [[(False, ''Project''), (False, ''Status'')], [(False, ''foo'')],
                      [(False, ''bar''), (False, ''FAILED'')]]"
  by (simp add: csv_text_def tabbed_table_def replace_space_def py_split_def is_space_def
      render_line_def render_cell_def)

lemma tabbed_table_rows:
  "dict_reader (map render_line [[(False, ''Project''), (False, ''Status'')], [(False, ''foo'')],
                                 [(False, ''bar''), (False, ''FAILED'')]]) =
     ([[PStr ''Project'' \<mapsto> PStr ''foo'', PStr ''Status'' \<mapsto> PNone],
       [PStr ''Project'' \<mapsto> PStr ''bar'', PStr ''Status'' \<mapsto> PStr ''FAILED'']], None)"
proof -
  have "\<forall>cs \<in> set ([(False, ''Project''), (False, ''Status'')] #
                      [[(False, ''foo'')], [(False, ''bar''), (False, ''FAILED'')]]).
          render_line cs \<noteq> [] \<and>
          (\<forall>c \<in> set cs. (fst c \<or> plain_cell (snd c)) \<and> CHR 0x00 \<notin> set (snd c) \<and>
                          length (snd c) \<le> field_limit)"
    by (simp add: render_line_def render_cell_def plain_cell_def field_limit_def)
  from dict_reader_rendered [OF this] show ?thesis
    by (simp add: make_row_def)
qed

text \<open>
  Without the condition on whitespace the property fails. Take a well-formed table of one
  data row whose first cell holds a tab, written as CSV and fetched with success. \<^verbatim>\<open>str.split\<close> cuts the text at the tab
  too, so \<^verbatim>\<open>_parse_csv\<close> yields two mappings for the one data row, neither of which has
  the row's cells as its values.
\<close>

theorem tab_cuts_a_row:
  "well_formed_table tabbed_table \<and> length (tl tabbed_table) = 1 \<and>
   csv_text [CHR 0x0A] True tabbed_table =
     ''Project,Status\<newline>foo'' @ [CHR 0x09] @ ''bar,FAILED\<newline>'' \<and>
   parse_csv (serving [(''base/release/status_report.csv'',
                        csv_text [CHR 0x0A] True tabbed_table)] PNone)
      ''base/release/status_report.csv'' [] =
     ([], [[PStr ''Project'' \<mapsto> PStr ''foo'', PStr ''Status'' \<mapsto> PNone],
           [PStr ''Project'' \<mapsto> PStr ''bar'', PStr ''Status'' \<mapsto> PStr ''FAILED'']], None)"
proof (intro conjI)
  show "well_formed_table tabbed_table"
    by (simp add: tabbed_table_def well_formed_table_def render_line_def render_cell_def
        plain_cell_def)
  show "length (tl tabbed_table) = 1"
    by (simp add: tabbed_table_def)
  show "csv_text [CHR 0x0A] True tabbed_table =
          ''Project,Status\<newline>foo'' @ [CHR 0x09] @ ''bar,FAILED\<newline>''"
    by (rule tabbed_table_text)
  show "parse_csv (serving [(''base/release/status_report.csv'',
                        csv_text [CHR 0x0A] True tabbed_table)] PNone)
      ''base/release/status_report.csv'' [] =
     ([], [[PStr ''Project'' \<mapsto> PStr ''foo'', PStr ''Status'' \<mapsto> PNone],
           [PStr ''Project'' \<mapsto> PStr ''bar'', PStr ''Status'' \<mapsto> PStr ''FAILED'']], None)"
  proof -
    have "dict_reader (py_split (replace_space (csv_text [CHR 0x0A] True tabbed_table))) =
            ([[PStr ''Project'' \<mapsto> PStr ''foo'', PStr ''Status'' \<mapsto> PNone],
              [PStr ''Project'' \<mapsto> PStr ''bar'', PStr ''Status'' \<mapsto> PStr ''FAILED'']],
             None)"
      unfolding tabbed_table_lines by (rule tabbed_table_rows)
    then show ?thesis
      by (simp add: parse_csv_def raw_fetch_def serving_def)
  qed
qed

lemma table_texts:
  "status_report_csv = csv_text [CHR 0x0A] True status_report_table"
  "versions_csv = csv_text [CHR 0x0A] True versions_table"
  "short_row_csv = csv_text [CHR 0x0A] True short_row_table"
  by (simp_all add: status_report_csv_def status_report_table_def versions_csv_def
      versions_table_def short_row_csv_def short_row_table_def csv_text_def render_line_def
      render_cell_def)

lemma tables_readable:
  "\<forall>r \<in> set status_report_table. render_line r \<noteq> [] \<and>
      (\<forall>c \<in> set r. (fst c \<or> plain_cell (snd c)) \<and> readable_cell (snd c))"
  "\<forall>r \<in> set versions_table. render_line r \<noteq> [] \<and>
      (\<forall>c \<in> set r. (fst c \<or> plain_cell (snd c)) \<and> readable_cell (snd c))"
  "\<forall>r \<in> set short_row_table. render_line r \<noteq> [] \<and>
      (\<forall>c \<in> set r. (fst c \<or> plain_cell (snd c)) \<and> readable_cell (snd c))"
  by (simp_all add: status_report_table_def versions_table_def short_row_table_def
      render_line_def render_cell_def plain_cell_def readable_cell_def other_whitespace_def
      field_limit_def)

lemma parse_csv_served:
  assumes "data = csv_text [CHR 0x0A] True (h # t)"
    and "\<forall>r \<in> set (h # t). render_line r \<noteq> [] \<and>
           (\<forall>c \<in> set r. (fst c \<or> plain_cell (snd c)) \<and> readable_cell (snd c))"
  shows "parse_csv (serving [(u, data)] y) u lg =
           (lg, map (\<lambda>r. make_row (underscored h) (underscored r)) t, None)"
proof -
  have "http (serving [(u, data)] y) u = Reply 200 (csv_text [CHR 0x0A] True (h # t))"
    using assms(1) by (simp add: serving_def)
  moreover have "[CHR 0x0A] = [CHR 0x0A] \<or> [CHR 0x0A] = [CHR 0x0D, CHR 0x0A]"
    by simp
  ultimately show ?thesis
    using assms(2) by (rule parse_csv_table)
qed

lemma status_report_rows:
  "parse_csv (serving [(''base/release/status_report.csv'', status_report_csv)] y)
      ''base/release/status_report.csv'' [] =
     ([], [make_row [''Project'', ''Status'', ''Source_Sha'', ''Dist_Sha'', ''Extended_Sha'']
                    [''bar'', ''FAILED'', ''aa11bb22'', ''cc33dd44'', ''None''],
           make_row [''Project'', ''Status'', ''Source_Sha'', ''Dist_Sha'', ''Extended_Sha'']
                    [''baz'', ''SUCCESS'', ''0123456789'', ''fedcba98'', ''None'']], None)"
  using parse_csv_served [OF table_texts(1) [unfolded status_report_table_def]
      tables_readable(1) [unfolded status_report_table_def],
      of "''base/release/status_report.csv''" y "[]"]
  by (simp add: underscored_def replace_space_def)

lemma versions_rows:
  "parse_csv (serving [(u, versions_csv)] y) u [] =
     ([], [make_row [''Project'', ''Source_Sha'', ''Dist_Sha'', ''Status'', ''Pkg_NVR'']
                    [''foo'', ''1111'', ''2222'', ''SUCCESS'', ''foo-1.0-1''],
           make_row [''Project'', ''Source_Sha'', ''Dist_Sha'', ''Status'', ''Pkg_NVR'']
                    [''bar'', ''3333'', ''4444'', ''FAILED'', ''bar-2.0-1''],
           make_row [''Project'', ''Source_Sha'', ''Dist_Sha'', ''Status'', ''Pkg_NVR'']
                    [''foo'', ''5555'', ''6666'', ''SUCCESS'', ''foo-1.1-1'']], None)"
  using parse_csv_served [OF table_texts(2) [unfolded versions_table_def]
      tables_readable(2) [unfolded versions_table_def], of u y "[]"]
  by (simp add: underscored_def replace_space_def)

lemma short_row_rows:
  "parse_csv (serving [(''base/release/status_report.csv'', short_row_csv)] y)
      ''base/release/status_report.csv'' [] =
     ([], [make_row [''Project'', ''Status'', ''Source_Sha'', ''Dist_Sha'', ''Extended_Sha'']
                    [''bar'', ''FAILED'', ''aa11bb22'', ''cc33dd44'']], None)"
  using parse_csv_served [OF table_texts(3) [unfolded short_row_table_def]
      tables_readable(3) [unfolded short_row_table_def],
      of "''base/release/status_report.csv''" y "[]"]
  by (simp add: underscored_def replace_space_def)

text \<open>Two header names that differ in a space and an underscore only become one key.\<close>

lemma underscore_merges_names:
  "parse_csv (serving [(u, ''a b,a_b\<newline>1,2\<newline>'')] y) u [] =
     ([], [[PStr ''a_b'' \<mapsto> PStr ''2'']], None)"
proof -
  have "''a b,a_b\<newline>1,2\<newline>'' =
          csv_text [CHR 0x0A] True
            ([(False, ''a b''), (False, ''a_b'')] # [[(False, ''1''), (False, ''2'')]])"
    by (simp add: csv_text_def render_line_def render_cell_def)
  moreover have "\<forall>r \<in> set ([(False, ''a b''), (False, ''a_b'')] # [[(False, ''1''), (False, ''2'')]]).
      render_line r \<noteq> [] \<and>
      (\<forall>c \<in> set r. (fst c \<or> plain_cell (snd c)) \<and> readable_cell (snd c))"
    by (simp add: render_line_def render_cell_def plain_cell_def readable_cell_def
        other_whitespace_def field_limit_def)
  ultimately have "parse_csv (serving [(u, ''a b,a_b\<newline>1,2\<newline>'')] y) u [] =
      ([], map (\<lambda>r. make_row (underscored [(False, ''a b''), (False, ''a_b'')]) (underscored r))
             [[(False, ''1''), (False, ''2'')]], None)"
    by (rule parse_csv_served)
  then show ?thesis
    by (simp add: underscored_def replace_space_def make_row_def)
qed

section \<open>The rows and the loops over them\<close>

lemma str_updates_hashable:
  "\<forall>k v. m (PStr k) = Some v \<longrightarrow> hashable v \<Longrightarrow>
   foldl (\<lambda>m (k, v). m(PStr k \<mapsto> PStr v)) m kvs (PStr k) = Some v \<Longrightarrow> hashable v"
proof (induction kvs arbitrary: m)
  case Nil
  then show ?case by simp
next
  case (Cons a kvs)
  obtain k' v' where a: "a = (k', v')" by (cases a)
  have "\<forall>k v. (m(PStr k' \<mapsto> PStr v')) (PStr k) = Some v \<longrightarrow> hashable v"
    using Cons.prems(1) by auto
  from Cons.IH [OF this] Cons.prems(2) a show ?case by (simp del: fun_upd_apply)
qed

lemma none_updates_hashable:
  "\<forall>k v. m (PStr k) = Some v \<longrightarrow> hashable v \<Longrightarrow>
   foldl (\<lambda>m k. m(PStr k \<mapsto> PNone)) m ks (PStr k) = Some v \<Longrightarrow> hashable v"
proof (induction ks arbitrary: m)
  case Nil
  then show ?case by simp
next
  case (Cons a ks)
  have "\<forall>k v. (m(PStr a \<mapsto> PNone)) (PStr k) = Some v \<longrightarrow> hashable v"
    using Cons.prems(1) by auto
  from Cons.IH [OF this] Cons.prems(2) show ?case by (simp del: fun_upd_apply)
qed

lemma make_row_hashable:
  assumes "make_row hs cs (PStr k) = Some v"
  shows "hashable v"
proof -
  let ?d = "foldl (\<lambda>m (k, v). m(PStr k \<mapsto> PStr v)) Map.empty (zip hs cs)"
  have d: "\<forall>k v. ?d (PStr k) = Some v \<longrightarrow> hashable v"
    using str_updates_hashable [of Map.empty] by blast
  consider "length hs < length cs" | "length cs < length hs" | "length hs = length cs"
    by linarith
  then show ?thesis
  proof cases
    case 1
    with assms have "?d (PStr k) = Some v" by (simp add: make_row_def Let_def)
    with d show ?thesis by blast
  next
    case 2
    with assms have "foldl (\<lambda>m k. m(PStr k \<mapsto> PNone)) ?d (drop (length cs) hs) (PStr k) = Some v"
      by (simp add: make_row_def Let_def)
    from none_updates_hashable [OF d this] show ?thesis .
  next
    case 3
    with assms have "?d (PStr k) = Some v" by (simp add: make_row_def Let_def)
    with d show ?thesis by blast
  qed
qed

lemma dict_reader_rows:
  "r \<in> set (fst (dict_reader f)) \<Longrightarrow> \<exists>hs cs. r = make_row hs cs"
  by (auto simp: dict_reader_def split: prod.splits list.splits)

lemma parse_csv_hashable:
  assumes "parse_csv w u lg = (lg', rows, e)" and "r \<in> set rows" and "r (PStr k) = Some v"
  shows "hashable v"
proof -
  have "\<exists>f. rows = fst (dict_reader f) \<or> rows = []"
    using assms(1)
    by (auto simp: parse_csv_def split: prod.splits sum.splits option.splits) (metis fst_conv)
  with assms(2) have "\<exists>hs cs. r = make_row hs cs"
    using dict_reader_rows [of r] by auto
  with assms(3) make_row_hashable show ?thesis by blast
qed

lemma find_snoc:
  "find P (xs @ [x]) =
     (case find P xs of None \<Rightarrow> (if P x then Some x else None) | Some y \<Rightarrow> Some y)"
  by (induction xs) auto

lemma versions_row_ok:
  assumes "\<forall>k \<in> set [''Project'', ''Source_Sha'', ''Status'', ''Dist_Sha'', ''Pkg_NVR''].
             r (PStr k) \<noteq> None"
    and "hashable (the (r (PStr ''Project'')))"
  shows "versions_row d r = Inr (d(the (r (PStr ''Project'')) \<mapsto> version_entry r))"
  using assms
  by (auto simp: versions_row_def row_get_def and_then_def dict_set_def version_entry_def)

lemma for_rows_versions:
  assumes "\<forall>r \<in> set rows.
             (\<forall>k \<in> set [''Project'', ''Source_Sha'', ''Status'', ''Dist_Sha'', ''Pkg_NVR''].
                r (PStr k) \<noteq> None) \<and>
             hashable (the (r (PStr ''Project'')))"
  shows "for_rows versions_row d rows =
           Inr (\<lambda>p. case last_row_for rows p of None \<Rightarrow> d p | Some r \<Rightarrow> Some (version_entry r))"
  using assms
proof (induction rows arbitrary: d)
  case Nil
  show ?case by (simp add: last_row_for_def)
next
  case (Cons r rs)
  let ?d = "d(the (r (PStr ''Project'')) \<mapsto> version_entry r)"
  have r: "versions_row d r = Inr ?d"
    using Cons.prems by (intro versions_row_ok) simp_all
  have pr: "r (PStr ''Project'') = Some (the (r (PStr ''Project'')))"
    using Cons.prems by simp
  have IH: "for_rows versions_row ?d rs =
      Inr (\<lambda>p. case last_row_for rs p of None \<Rightarrow> ?d p | Some r \<Rightarrow> Some (version_entry r))"
    using Cons.prems by (intro Cons.IH) simp
  have "(case last_row_for rs p of None \<Rightarrow> ?d p | Some r \<Rightarrow> Some (version_entry r)) =
        (case last_row_for (r # rs) p of None \<Rightarrow> d p | Some r \<Rightarrow> Some (version_entry r))" for p
    using pr by (auto simp: last_row_for_def find_snoc split: option.splits)
  with r IH show ?case by (simp add: and_then_def)
qed

lemma build_url_ok_not_list:
  assumes "snd (build_url self h) = Inr u"
  shows "\<forall>xs. commit h \<noteq> PList xs"
proof (intro allI notI)
  fix xs
  assume "commit h = PList xs"
  then have "\<exists>e. snd (build_url self h) = Inl e"
    by (simp add: build_url_def path_join_vals_def split: prod.splits option.splits
        del: suffix_loop.simps)
  with assms show False by auto
qed

text \<open>
  C5: For every \<^verbatim>\<open>versions.csv\<close> whose rows parse as mappings that have the fields
  \<open>Project\<close>, \<open>Source_Sha\<close>, \<open>Status\<close>, \<open>Dist_Sha\<close> and \<open>Pkg_NVR\<close>, the accessor
  \<^verbatim>\<open>versions\<close> returns the mapping from each row's \<open>Project\<close> to the record of its
  \<open>source\<close>, \<open>state\<close>, \<open>distgit\<close> and \<open>nvr\<close>; when several rows name one project, the
  record of the last of them is the one returned. The instance is unchanged and the log is
  the one the fetch left.
\<close>

theorem versions_last_write_wins:
  assumes built: "snd (build_url self
             \<lparr>commit = dict_get (commit_data self) ''commit_hash'',
              dist = dict_get (commit_data self) ''dist_hash'',
              extended = dict_get (commit_data self) ''extended_hash''\<rparr>) = Inr u"
    and parsed: "parse_csv w (path_join u [''versions.csv'']) lg = (lg', rows, None)"
    and fields: "\<forall>r \<in> set rows.
                   \<forall>k \<in> set [''Project'', ''Source_Sha'', ''Status'', ''Dist_Sha'', ''Pkg_NVR''].
                     r (PStr k) \<noteq> None"
  shows "versions w self lg =
           ((self, lg'), Inr (\<lambda>p. map_option version_entry (last_row_for rows p)))"
proof -
  let ?h = "\<lparr>commit = dict_get (commit_data self) ''commit_hash'',
              dist = dict_get (commit_data self) ''dist_hash'',
              extended = dict_get (commit_data self) ''extended_hash''\<rparr>"
  obtain obj where b: "build_url self ?h = (obj, Inr u)"
    using built by (metis prod.collapse)
  have "\<forall>xs. commit ?h \<noteq> PList xs"
    using built by (rule build_url_ok_not_list)
  then have same: "(case commit_data self ''commit_hash'' of
                      Some (PList xs) \<Rightarrow>
                        self\<lparr>commit_data := (commit_data self)(''commit_hash'' \<mapsto> obj)\<rparr>
                    | _ \<Rightarrow> self) = self"
    by (auto simp: dict_get_def split: option.splits pyval.splits)
  have "\<forall>r \<in> set rows.
             (\<forall>k \<in> set [''Project'', ''Source_Sha'', ''Status'', ''Dist_Sha'', ''Pkg_NVR''].
                r (PStr k) \<noteq> None) \<and>
             hashable (the (r (PStr ''Project'')))"
  proof
    fix r assume r: "r \<in> set rows"
    with fields have "r (PStr ''Project'') = Some (the (r (PStr ''Project'')))" by simp
    from parse_csv_hashable [OF parsed r this] fields r
    show "(\<forall>k \<in> set [''Project'', ''Source_Sha'', ''Status'', ''Dist_Sha'', ''Pkg_NVR''].
                r (PStr k) \<noteq> None) \<and> hashable (the (r (PStr ''Project'')))"
      by blast
  qed
  then have loop: "for_rows versions_row Map.empty rows =
      Inr (\<lambda>p. case last_row_for rows p of None \<Rightarrow> None | Some r \<Rightarrow> Some (version_entry r))"
    by (rule for_rows_versions)
  have "(\<lambda>p. case last_row_for rows p of None \<Rightarrow> None | Some r \<Rightarrow> Some (version_entry r)) =
        (\<lambda>p. map_option version_entry (last_row_for rows p))"
    by (auto simp: fun_eq_iff split: option.splits)
  with loop show ?thesis
    by (simp add: versions_def Let_def b same parsed for_generator_def and_then_def
        del: set_simps)
qed

theorem versions_last_write_wins_witness:
  "\<exists>m. versions
          (serving [(''base/release/12/34/1234567890abcdef_abcd1234/versions.csv'',
                     versions_csv)] PNone)
          (example_instance (PStr ''1234567890abcdef'')) []
          = ((example_instance (PStr ''1234567890abcdef''), []), Inr m) \<and>
        m (PStr ''foo'') =
          Some [''source'' \<mapsto> PStr ''5555'', ''state'' \<mapsto> PStr ''SUCCESS'',
                ''distgit'' \<mapsto> PStr ''6666'', ''nvr'' \<mapsto> PStr ''foo-1.1-1''] \<and>
        m (PStr ''bar'') =
          Some [''source'' \<mapsto> PStr ''3333'', ''state'' \<mapsto> PStr ''FAILED'',
                ''distgit'' \<mapsto> PStr ''4444'', ''nvr'' \<mapsto> PStr ''bar-2.0-1''] \<and>
        m (PStr ''baz'') = None"
proof -
  let ?self = "example_instance (PStr ''1234567890abcdef'')"
  let ?u = "''base/release/12/34/1234567890abcdef_abcd1234''"
  let ?w = "serving [(''base/release/12/34/1234567890abcdef_abcd1234/versions.csv'',
                      versions_csv)] PNone"
  let ?hs = "[''Project'', ''Source_Sha'', ''Dist_Sha'', ''Status'', ''Pkg_NVR'']"
  let ?rows = "[make_row ?hs [''foo'', ''1111'', ''2222'', ''SUCCESS'', ''foo-1.0-1''],
                make_row ?hs [''bar'', ''3333'', ''4444'', ''FAILED'', ''bar-2.0-1''],
                make_row ?hs [''foo'', ''5555'', ''6666'', ''SUCCESS'', ''foo-1.1-1'']]"
  have built: "snd (build_url ?self
             \<lparr>commit = dict_get (commit_data ?self) ''commit_hash'',
              dist = dict_get (commit_data ?self) ''dist_hash'',
              extended = dict_get (commit_data ?self) ''extended_hash''\<rparr>) = Inr ?u"
    by (simp add: example_instance_def dict_get_def build_url_def path_join_vals_def
        path_join_def join_step_def)
  have parsed: "parse_csv ?w (path_join ?u [''versions.csv'']) [] = ([], ?rows, None)"
    by (simp add: path_join_def join_step_def versions_rows)
  have fields: "\<forall>r \<in> set ?rows.
                   \<forall>k \<in> set [''Project'', ''Source_Sha'', ''Status'', ''Dist_Sha'', ''Pkg_NVR''].
                     r (PStr k) \<noteq> None"
    by (simp add: make_row_def)
  have "versions ?w ?self [] =
          ((?self, []), Inr (\<lambda>p. map_option version_entry (last_row_for ?rows p)))"
    by (rule versions_last_write_wins [OF built parsed fields])
  then show ?thesis
    by (intro exI [of _ "\<lambda>p. map_option version_entry (last_row_for ?rows p)"])
       (simp add: last_row_for_def make_row_def version_entry_def)
qed

lemma failures_row_other:
  assumes "r (PStr ''Status'') = Some st" and "st \<noteq> PStr ''FAILED''"
  shows "failures_row self d r = Inr d"
  using assms by (simp add: failures_row_def row_get_def and_then_def)

lemma failures_row_failed:
  assumes "r (PStr ''Status'') = Some (PStr ''FAILED'')"
    and "r (PStr ''Source_Sha'') = Some (PStr h)"
    and "r (PStr ''Dist_Sha'') = Some (PStr ds)"
    and "r (PStr ''Extended_Sha'') = Some (PStr e)"
    and "r (PStr ''Project'') = Some p"
    and "hashable p"
  shows "failures_row self d r = Inr (d(p \<mapsto> failure_url self r))"
    and "snd (build_url self \<lparr>commit = the (r (PStr ''Source_Sha'')),
                               dist = the (r (PStr ''Dist_Sha'')),
                               extended = the (r (PStr ''Extended_Sha''))\<rparr>)
           = Inr (failure_url self r)"
  using assms
  by (simp_all add: failures_row_def row_get_def and_then_def dict_set_def failure_url_def
      build_url_str)

lemma for_rows_failures:
  assumes "\<forall>r \<in> set rows.
             r (PStr ''Status'') \<noteq> None \<and>
             (r (PStr ''Status'') = Some (PStr ''FAILED'') \<longrightarrow>
                (\<exists>p h ds e. hashable p \<and> r (PStr ''Project'') = Some p \<and>
                   r (PStr ''Source_Sha'') = Some (PStr h) \<and>
                   r (PStr ''Dist_Sha'') = Some (PStr ds) \<and>
                   r (PStr ''Extended_Sha'') = Some (PStr e)))"
  shows "for_rows (failures_row self) d rows =
           Inr (\<lambda>p. case last_failed_for rows p of
                      None \<Rightarrow> d p | Some r \<Rightarrow> Some (failure_url self r))"
  using assms
proof (induction rows arbitrary: d)
  case Nil
  show ?case by (simp add: last_failed_for_def)
next
  case (Cons r rs)
  show ?case
  proof (cases "r (PStr ''Status'') = Some (PStr ''FAILED'')")
    case True
    then obtain p h ds e where f: "hashable p" "r (PStr ''Project'') = Some p"
        "r (PStr ''Source_Sha'') = Some (PStr h)" "r (PStr ''Dist_Sha'') = Some (PStr ds)"
        "r (PStr ''Extended_Sha'') = Some (PStr e)"
      using Cons.prems by auto
    let ?d = "d(p \<mapsto> failure_url self r)"
    have r: "failures_row self d r = Inr ?d"
      using True f by (intro failures_row_failed(1)) simp_all
    have IH: "for_rows (failures_row self) ?d rs =
        Inr (\<lambda>q. case last_failed_for rs q of
                   None \<Rightarrow> ?d q | Some r \<Rightarrow> Some (failure_url self r))"
      using Cons.prems by (intro Cons.IH) simp
    have "(case last_failed_for rs q of None \<Rightarrow> ?d q | Some r \<Rightarrow> Some (failure_url self r)) =
          (case last_failed_for (r # rs) q of
             None \<Rightarrow> d q | Some r \<Rightarrow> Some (failure_url self r))" for q
      using True f(2) by (auto simp: last_failed_for_def find_snoc split: option.splits)
    with r IH show ?thesis by (simp add: and_then_def)
  next
    case False
    then obtain st where st: "r (PStr ''Status'') = Some st" "st \<noteq> PStr ''FAILED''"
      using Cons.prems by auto
    have r: "failures_row self d r = Inr d"
      using st by (rule failures_row_other)
    have IH: "for_rows (failures_row self) d rs =
        Inr (\<lambda>q. case last_failed_for rs q of
                   None \<Rightarrow> d q | Some r \<Rightarrow> Some (failure_url self r))"
      using Cons.prems by (intro Cons.IH) simp
    have "last_failed_for (r # rs) q = last_failed_for rs q" for q
      using False by (auto simp: last_failed_for_def find_snoc split: option.splits)
    with r IH show ?thesis by (simp add: and_then_def)
  qed
qed

text \<open>
  When every row has a \<open>Status\<close>, and every row whose status is \<open>FAILED\<close> has a
  \<open>Project\<close> and strings as its three hashes, \<^verbatim>\<open>get_failures\<close> returns the mapping
  that holds exactly the projects of the failed rows, each mapped to the URL that
  \<^verbatim>\<open>_build_url\<close> builds from the row's \<open>Source_Sha\<close>, \<open>Dist_Sha\<close> and
  \<open>Extended_Sha\<close>; the scenario of the specification, the failed project \<open>bar\<close> with
  the extended hash \<open>None\<close>, is an instance.
\<close>

lemma get_failures_failed_rows:
  assumes parsed: "parse_csv w (path_join (url self) [''status_report.csv'']) lg
                     = (lg', rows, None)"
    and fields: "\<forall>r \<in> set rows.
                   r (PStr ''Status'') \<noteq> None \<and>
                   (r (PStr ''Status'') = Some (PStr ''FAILED'') \<longrightarrow>
                      r (PStr ''Project'') \<noteq> None \<and>
                      (\<exists>h ds e. r (PStr ''Source_Sha'') = Some (PStr h) \<and>
                                r (PStr ''Dist_Sha'') = Some (PStr ds) \<and>
                                r (PStr ''Extended_Sha'') = Some (PStr e)))"
  shows "get_failures w self lg =
           (lg', Inr (\<lambda>p. map_option (failure_url self) (last_failed_for rows p))) \<and>
         (\<forall>r \<in> set rows. r (PStr ''Status'') = Some (PStr ''FAILED'') \<longrightarrow>
            snd (build_url self \<lparr>commit = the (r (PStr ''Source_Sha'')),
                                  dist = the (r (PStr ''Dist_Sha'')),
                                  extended = the (r (PStr ''Extended_Sha''))\<rparr>)
              = Inr (failure_url self r))"
proof
  have "\<forall>r \<in> set rows.
             r (PStr ''Status'') \<noteq> None \<and>
             (r (PStr ''Status'') = Some (PStr ''FAILED'') \<longrightarrow>
                (\<exists>p h ds e. hashable p \<and> r (PStr ''Project'') = Some p \<and>
                   r (PStr ''Source_Sha'') = Some (PStr h) \<and>
                   r (PStr ''Dist_Sha'') = Some (PStr ds) \<and>
                   r (PStr ''Extended_Sha'') = Some (PStr e)))"
  proof
    fix r assume r: "r \<in> set rows"
    have "hashable p" if "r (PStr ''Project'') = Some p" for p
      using parse_csv_hashable [OF parsed r that] .
    with fields r
    show "r (PStr ''Status'') \<noteq> None \<and>
             (r (PStr ''Status'') = Some (PStr ''FAILED'') \<longrightarrow>
                (\<exists>p h ds e. hashable p \<and> r (PStr ''Project'') = Some p \<and>
                   r (PStr ''Source_Sha'') = Some (PStr h) \<and>
                   r (PStr ''Dist_Sha'') = Some (PStr ds) \<and>
                   r (PStr ''Extended_Sha'') = Some (PStr e)))"
      by (metis option.exhaust)
  qed
  then have loop: "for_rows (failures_row self) Map.empty rows =
      Inr (\<lambda>p. case last_failed_for rows p of
                 None \<Rightarrow> None | Some r \<Rightarrow> Some (failure_url self r))"
    by (rule for_rows_failures)
  have "(\<lambda>p. case last_failed_for rows p of
               None \<Rightarrow> None | Some r \<Rightarrow> Some (failure_url self r)) =
        (\<lambda>p. map_option (failure_url self) (last_failed_for rows p))"
    by (auto simp: fun_eq_iff split: option.splits)
  with loop show "get_failures w self lg =
           (lg', Inr (\<lambda>p. map_option (failure_url self) (last_failed_for rows p)))"
    by (simp add: get_failures_def parsed for_generator_def and_then_def)
next
  show "\<forall>r \<in> set rows. r (PStr ''Status'') = Some (PStr ''FAILED'') \<longrightarrow>
            snd (build_url self \<lparr>commit = the (r (PStr ''Source_Sha'')),
                                  dist = the (r (PStr ''Dist_Sha'')),
                                  extended = the (r (PStr ''Extended_Sha''))\<rparr>)
              = Inr (failure_url self r)"
    using fields by (auto simp: failure_url_def build_url_str)
qed

lemma get_failures_example:
  "get_failures (serving [(''base/release/status_report.csv'', status_report_csv)] PNone)
     empty_instance [] =
     ([], Inr [PStr ''bar'' \<mapsto> ''base/release/aa/11/aa11bb22_cc33dd44''])"
proof -
  let ?w = "serving [(''base/release/status_report.csv'', status_report_csv)] PNone"
  let ?hs = "[''Project'', ''Status'', ''Source_Sha'', ''Dist_Sha'', ''Extended_Sha'']"
  let ?r1 = "make_row ?hs [''bar'', ''FAILED'', ''aa11bb22'', ''cc33dd44'', ''None'']"
  let ?r2 = "make_row ?hs [''baz'', ''SUCCESS'', ''0123456789'', ''fedcba98'', ''None'']"
  have parsed: "parse_csv ?w (path_join (url empty_instance) [''status_report.csv'']) []
                  = ([], [?r1, ?r2], None)"
    using status_report_rows [of PNone]
    by (simp add: empty_instance_def path_join_def join_step_def)
  have fields: "\<forall>r \<in> set [?r1, ?r2].
                   r (PStr ''Status'') \<noteq> None \<and>
                   (r (PStr ''Status'') = Some (PStr ''FAILED'') \<longrightarrow>
                      r (PStr ''Project'') \<noteq> None \<and>
                      (\<exists>h ds e. r (PStr ''Source_Sha'') = Some (PStr h) \<and>
                                r (PStr ''Dist_Sha'') = Some (PStr ds) \<and>
                                r (PStr ''Extended_Sha'') = Some (PStr e)))"
    by (simp add: make_row_def)
  have "(\<lambda>p. map_option (failure_url empty_instance) (last_failed_for [?r1, ?r2] p)) =
        [PStr ''bar'' \<mapsto> ''base/release/aa/11/aa11bb22_cc33dd44'']"
    by (rule ext)
       (simp add: last_failed_for_def make_row_def failure_url_def build_url_str
          empty_instance_def path_join_def join_step_def)
  with get_failures_failed_rows [OF parsed fields] show ?thesis by simp
qed

text \<open>
  C4: For every \<^verbatim>\<open>status_report.csv\<close> whose rows parse as mappings, \<^verbatim>\<open>get_failures\<close>
  returns the mapping from the \<open>Project\<close> of each row whose \<open>Status\<close> is \<open>FAILED\<close> to
  the URL built from the row's \<open>Source_Sha\<close>, \<open>Dist_Sha\<close> and \<open>Extended_Sha\<close>. The
  code does so when the three hashes of every failed row are strings
  (\<open>get_failures_failed_rows\<close>). A failed row that lacks its last cell parses as a
  mapping too: \<^verbatim>\<open>DictReader\<close> binds \<open>Extended_Sha\<close> to Python's \<^verbatim>\<open>None\<close>, which
  \<^verbatim>\<open>_build_url\<close> lets through its comparison with the string \<open>None\<close> and then slices;
  \<^verbatim>\<open>TypeError\<close> leaves \<^verbatim>\<open>get_failures\<close> and no mapping is returned, where the claim
  gives \<open>bar\<close> the URL \<open>base/release/aa/11/aa11bb22_cc33dd44\<close>.
\<close>

theorem get_failures_short_row_raises:
  "parse_csv (serving [(''base/release/status_report.csv'', short_row_csv)] PNone)
      ''base/release/status_report.csv'' [] =
     ([], [[PStr ''Project'' \<mapsto> PStr ''bar'', PStr ''Status'' \<mapsto> PStr ''FAILED'',
            PStr ''Source_Sha'' \<mapsto> PStr ''aa11bb22'', PStr ''Dist_Sha'' \<mapsto> PStr ''cc33dd44'',
            PStr ''Extended_Sha'' \<mapsto> PNone]], None) \<and>
   get_failures (serving [(''base/release/status_report.csv'', short_row_csv)] PNone)
      empty_instance [] = ([], Inl TypeError)"
proof
  show "parse_csv (serving [(''base/release/status_report.csv'', short_row_csv)] PNone)
      ''base/release/status_report.csv'' [] =
     ([], [[PStr ''Project'' \<mapsto> PStr ''bar'', PStr ''Status'' \<mapsto> PStr ''FAILED'',
            PStr ''Source_Sha'' \<mapsto> PStr ''aa11bb22'', PStr ''Dist_Sha'' \<mapsto> PStr ''cc33dd44'',
            PStr ''Extended_Sha'' \<mapsto> PNone]], None)"
    unfolding short_row_rows by (simp add: make_row_def)
  have "path_join (url empty_instance) [''status_report.csv'']
          = ''base/release/status_report.csv''"
    by (simp add: empty_instance_def path_join_def join_step_def)
  then show "get_failures (serving [(''base/release/status_report.csv'', short_row_csv)] PNone)
      empty_instance [] = ([], Inl TypeError)"
    unfolding get_failures_def
    by (simp add: short_row_rows for_generator_def failures_row_def row_get_def and_then_def
        make_row_def build_url_def)
qed

end
